theory Spec2Isabelle
  imports Complex_Main "HOL-Library.Char_ord" "HOL-Library.List_Lexorder" "HOL-Library.AList"
begin

section \<open>Common data: exceptions and log records\<close>

text \<open>
  A Python exception is an instance of a class: it is modelled by the names of its class
  and of the classes that class derives from (its method resolution order), and its
  message. A clause \<open>except C\<close> catches the instances of \<open>C\<close> and of its subclasses,
  which is \<open>isinstance\<close>. The handlers of the program name \<open>Exception\<close> and, once,
  \<open>AttributeError\<close>; instances of KeyboardInterrupt, SystemExit and other classes that
  derive from BaseException directly pass them. \<open>Exn c m\<close> is an instance of a class
  \<open>c\<close> that derives directly from \<open>Exception\<close>, as ValueError and TypeError do.
  A call to \<open>logging.info(fmt, args)\<close> is recorded as the level, the format string
  and the arguments, as the logging module keeps them in a log record.
\<close>

datatype exn = Instance (mro: "string list") (msg: string)

abbreviation Exn :: "string \<Rightarrow> string \<Rightarrow> exn" where
  "Exn c m \<equiv> Instance [c, ''Exception'', ''BaseException''] m"

definition isinstance :: "exn \<Rightarrow> string \<Rightarrow> bool" where
  "isinstance e c \<longleftrightarrow> c \<in> set (mro e)"

datatype level = INFO | WARNING | ERROR

datatype arg = AStr string | ANat nat | ADate int | AExn exn

type_synonym log_entry = "level \<times> string \<times> arg list"

section \<open>get\_data.py: the ticker universe\<close>

text \<open>
  The four listing calls of \<open>yahoo_fin.stock_info\<close> are the environment: each one
  either raises or returns a list of strings.
\<close>

record sources =
  tickers_sp500 :: "exn + string list"
  tickers_dow :: "exn + string list"
  tickers_nasdaq :: "exn + string list"
  tickers_etfs :: "exn + string list"

text \<open>
  The character class \<open>[A-Z-.]\<close> of the filter: the range A to Z, the hyphen and the dot.
\<close>

definition ticker_char :: "char \<Rightarrow> bool" where
  "ticker_char c \<longleftrightarrow> (CHR ''A'' \<le> c \<and> c \<le> CHR ''Z'') \<or> c = CHR ''-'' \<or> c = CHR ''.''"

text \<open>
  \<open>re.search(r"^[A-Z-.]+$", t)\<close>: the anchor \<open>^\<close> fixes the match at position 0, the
  greedy \<open>+\<close> takes the longest run of class characters (at least one), and Python's
  \<open>$\<close> (no MULTILINE flag) matches at the end of the string and also just before a
  newline that is the last character of the string.
\<close>

definition re_search_ticker :: "string \<Rightarrow> bool" where
  "re_search_ticker t =
     (let body = takeWhile ticker_char t; rest = dropWhile ticker_char t
      in body \<noteq> [] \<and> (rest = [] \<or> rest = [CHR 0x0A]))"

definition valid_ticker :: "string \<Rightarrow> bool" where
  "valid_ticker t \<longleftrightarrow> re_search_ticker t \<and> length t \<le> 64"

text \<open>
  The first \<open>try\<close> block extends the list with three sources in a row; an exception
  in one of them leaves what was already added and skips the rest of the block. Its
  handler is \<open>except Exception\<close>: another exception leaves the function. The result of
  each block is the tickers collected, the log lines written, and the exception that
  leaves the function, if one does.
\<close>

definition index_handler :: "string list \<Rightarrow> exn \<Rightarrow> string list \<times> log_entry list \<times> exn option" where
  "index_handler collected e =
     (if isinstance e ''Exception''
      then (collected, [(ERROR, ''Failed to fetch tickers for S&P 500, Dow, or NASDAQ: %s'', [AExn e])], None)
      else (collected, [], Some e))"

definition fetch_index_tickers :: "sources \<Rightarrow> string list \<times> log_entry list \<times> exn option" where
  "fetch_index_tickers si =
     (case tickers_sp500 si of
        Inl e \<Rightarrow> index_handler [] e
      | Inr a \<Rightarrow>
          (case tickers_dow si of
             Inl e \<Rightarrow> index_handler a e
           | Inr b \<Rightarrow>
               (case tickers_nasdaq si of
                  Inl e \<Rightarrow> index_handler (a @ b) e
                | Inr c \<Rightarrow> (a @ b @ c, [], None))))"

text \<open>
  The second block: \<open>except AttributeError\<close> comes first and also takes the subclasses
  of AttributeError, then \<open>except Exception\<close>.
\<close>

definition fetch_etf_tickers :: "sources \<Rightarrow> string list \<times> log_entry list \<times> exn option" where
  "fetch_etf_tickers si =
     (case tickers_etfs si of
        Inr d \<Rightarrow> (d, [], None)
      | Inl e \<Rightarrow>
          (if isinstance e ''AttributeError''
           then ([], [(WARNING, ''si.tickers_etfs() is unavailable or deprecated, skipping ETFs.'', [])], None)
           else if isinstance e ''Exception''
           then ([], [(ERROR, ''Failed to fetch ETF tickers: %s'', [AExn e])], None)
           else ([], [], Some e)))"

text \<open>
  \<open>fetch_all_tickers\<close>: the list it returns, the log lines it writes, and the exception
  that leaves it. When an exception leaves it, the later statements are not executed and
  nothing is returned: the first component is then the empty list.
\<close>

definition fetch_all_tickers :: "sources \<Rightarrow> string list \<times> log_entry list \<times> exn option" where
  "fetch_all_tickers si =
     (let log0 = [(INFO, ''Fetching list of all tickers from yahoo_fin...'', [])];
          (t1, log1, esc1) = fetch_index_tickers si
      in case esc1 of
           Some e \<Rightarrow> ([], log0 @ log1, Some e)
         | None \<Rightarrow>
             (let (t2, log2, esc2) = fetch_etf_tickers si
              in case esc2 of
                   Some e \<Rightarrow> ([], log0 @ log1 @ log2, Some e)
                 | None \<Rightarrow>
                     (let tickers = t1 @ t2;
                          unique_tickers = sort (remdups tickers);
                          valid_tickers = filter valid_ticker unique_tickers
                      in (valid_tickers,
                          log0 @ log1 @ log2 @
                          [(INFO, ''Found %d unique, valid tickers for DB.'', [ANat (length valid_tickers)])],
                          None))))"

text \<open>\<open>ticker.replace('.', '_').replace('-', '_')\<close>\<close>

definition replace_char :: "char \<Rightarrow> char \<Rightarrow> string \<Rightarrow> string" where
  "replace_char a b s = map (\<lambda>c. if c = a then b else c) s"

definition table_name_of :: "string \<Rightarrow> string" where
  "table_name_of ticker = replace_char (CHR ''-'') (CHR ''_'') (replace_char (CHR ''.'') (CHR ''_'') ticker)"

section \<open>get\_data.py: incremental fetch and append\<close>

text \<open>
  A calendar date is its proleptic Gregorian ordinal, the number Python's
  \<open>date.toordinal()\<close> gives; \<open>date + timedelta(days=1)\<close> adds one to it and raises
  OverflowError beyond \<open>date.max\<close>. The start date is handed to the external source as
  this value (the program renders it with \<open>strftime('%Y-%m-%d')\<close>).
\<close>

type_synonym date = int

definition is_leap :: "int \<Rightarrow> bool" where
  "is_leap y \<longleftrightarrow> y mod 4 = 0 \<and> (y mod 400 = 0 \<or> y mod 100 \<noteq> 0)"

definition days_before_year :: "int \<Rightarrow> int" where
  "days_before_year year = (year - 1) * 365 + (year - 1) div 4 - (year - 1) div 100 + (year - 1) div 400"

definition days_before_month :: "int \<Rightarrow> nat \<Rightarrow> int" where
  "days_before_month year month =
     sum_list (take (month - 1) [31, 28, 31, 30, 31, 30, 31, 31, 30, 31, 30, 31])
       + (if month > 2 \<and> is_leap year then 1 else 0)"

definition ymd2ord :: "int \<Rightarrow> nat \<Rightarrow> int \<Rightarrow> date" where
  "ymd2ord year month day = days_before_year year + days_before_month year month + day"

text \<open>\<open>date.max\<close> is 9999-12-31; the program's floor \<open>start_date = "1950-01-01"\<close>.\<close>

definition date_max :: date where
  "date_max = ymd2ord 9999 12 31"

definition epoch_floor :: date where
  "epoch_floor = ymd2ord 1950 1 1"

definition add_one_day :: "date \<Rightarrow> exn + date" where
  "add_one_day d =
     (if d + 1 > date_max then Inl (Exn ''OverflowError'' ''date value out of range'')
      else Inr (d + 1))"

text \<open>
  What \<open>connection.execute(query).scalar()\<close> can hand back for \<open>MAX(Date)\<close>:
  None for SQL NULL, a date, a datetime (date and seconds of the day), a string, or a value
  of some other Python type.
\<close>

datatype scalar = SNull | SDate date | SDateTime date nat | SStr string | SOther string

text \<open>
  Library functions the program calls, as parameters: \<open>strptime\<close> parses a string in
  the format \<open>%Y-%m-%d\<close> (None where Python raises ValueError), \<open>parse_numeric\<close> is
  the number parser of \<open>pd.to_numeric\<close> (None where the string is not a number).
\<close>

record lib =
  strptime :: "string \<Rightarrow> date option"
  parse_numeric :: "string \<Rightarrow> real option"

text \<open>Lines 105 to 112: from the scalar to the start of the fetch window.\<close>

definition next_start_date :: "lib \<Rightarrow> scalar \<Rightarrow> exn + date" where
  "next_start_date L result =
     (case result of
        SNull \<Rightarrow> Inr epoch_floor
      | SStr s \<Rightarrow>
          (case strptime L s of
             None \<Rightarrow> Inl (Exn ''ValueError'' ''time data does not match format'')
           | Some d \<Rightarrow> add_one_day d)
      | SDateTime d t \<Rightarrow> add_one_day d
      | SDate d \<Rightarrow> add_one_day d
      | SOther v \<Rightarrow> Inl (Exn ''TypeError'' ''unsupported operand type(s) for +''))"

text \<open>
  A data frame as \<open>history()\<close> returns it: the index of timestamps (named Date) and the
  named columns. A cell is a number, a string, or missing (None, NaN).
\<close>

datatype cell = Num real | Str string | Missing

record frame =
  index :: "(date \<times> nat) list"
  columns :: "(string \<times> cell list) list"

definition empty_frame :: "frame \<Rightarrow> bool" where
  "empty_frame df \<longleftrightarrow> index df = [] \<or> columns df = []"

text \<open>
  \<open>pd.to_numeric(column)\<close> with its default \<open>errors='raise'\<close>: numbers stay, a
  numeric string is parsed, a missing value stays missing, the empty string becomes NaN,
  and the first other string that is not a number raises ValueError for the whole column.
  The message of that ValueError is abridged here: pandas puts the string in quotes and
  adds its position in the column.
\<close>

definition to_numeric_cell :: "lib \<Rightarrow> cell \<Rightarrow> exn + cell" where
  "to_numeric_cell L c =
     (case c of
        Num x \<Rightarrow> Inr (Num x)
      | Missing \<Rightarrow> Inr Missing
      | Str s \<Rightarrow>
          if s = [] then Inr Missing
          else
            (case parse_numeric L s of
               Some x \<Rightarrow> Inr (Num x)
             | None \<Rightarrow> Inl (Exn ''ValueError'' (''Unable to parse string '' @ s))))"

fun to_numeric :: "lib \<Rightarrow> cell list \<Rightarrow> exn + cell list" where
  "to_numeric L [] = Inr []"
| "to_numeric L (c # cs) =
     (case to_numeric_cell L c of
        Inl e \<Rightarrow> Inl e
      | Inr c' \<Rightarrow> (case to_numeric L cs of Inl e \<Rightarrow> Inl e | Inr cs' \<Rightarrow> Inr (c' # cs')))"

text \<open>The loop over the five column names, each converted only if the frame has it.\<close>

fun coerce_columns :: "lib \<Rightarrow> string list \<Rightarrow> (string \<times> cell list) list \<Rightarrow> exn + (string \<times> cell list) list" where
  "coerce_columns L [] cols = Inr cols"
| "coerce_columns L (col # rest) cols =
     (case map_of cols col of
        None \<Rightarrow> coerce_columns L rest cols
      | Some cs \<Rightarrow>
          (case to_numeric L cs of
             Inl e \<Rightarrow> Inl e
           | Inr cs' \<Rightarrow> coerce_columns L rest (AList.update col cs' cols)))"

definition numeric_columns :: "string list" where
  "numeric_columns = [''Open'', ''High'', ''Low'', ''Close'', ''Volume'']"

text \<open>
  A stored row is its Date and its named cells. \<open>rows_of\<close> reads a frame row by row,
  with the Date already cut down to the calendar date (\<open>.dt.date\<close>).
\<close>

type_synonym row = "date \<times> (string \<times> cell) list"

fun rows_of :: "date list \<Rightarrow> (string \<times> cell list) list \<Rightarrow> row list" where
  "rows_of [] cols = []"
| "rows_of (d # ds) cols =
     (d, map (\<lambda>(n, cs). (n, case cs of [] \<Rightarrow> Missing | c # _ \<Rightarrow> c)) cols)
       # rows_of ds (map (\<lambda>(n, cs). (n, tl cs)) cols)"

text \<open>Lines 122 to 127: the rows that will be written, or the exception of a conversion.\<close>

definition prepare_rows :: "lib \<Rightarrow> frame \<Rightarrow> exn + row list" where
  "prepare_rows L df =
     (let dates = map fst (index df)
      in case coerce_columns L numeric_columns (columns df) of
           Inl e \<Rightarrow> Inl e
         | Inr cols \<Rightarrow> Inr (rows_of dates cols))"

text \<open>
  The database is a map from table names to the rows appended so far. The engine is a
  parameter: which of its operations raise while a given ticker is processed, how its
  driver hands a stored Date back, and what a failing \<open>to_sql\<close> leaves behind: nothing
  (None), or the table with the first \<open>k\<close> rows of the batch appended (Some \<open>k\<close>).
  The external source is a parameter too: the frame (or the exception) that
  \<open>yf.Ticker(ticker).history(start, auto_adjust=True)\<close> gives. The state of a run is
  the tables, the log, and the exception that has left the loop, if one has.
\<close>

type_synonym tables = "string \<rightharpoonup> row list"

datatype db_op = Connect | HasTable | SelectMax | ToSql

record engine =
  fault :: "string \<Rightarrow> db_op \<Rightarrow> exn option"
  date_repr :: "date \<Rightarrow> scalar"
  written :: "string \<Rightarrow> nat option"

type_synonym source = "string \<Rightarrow> date \<Rightarrow> exn + frame"

record world =
  tables :: tables
  logs :: "log_entry list"
  escaped :: "exn option"

definition appended :: "tables \<Rightarrow> string \<Rightarrow> row list \<Rightarrow> tables" where
  "appended tb table_name new_rows =
     tb(table_name \<mapsto> (case tb table_name of None \<Rightarrow> [] | Some old \<Rightarrow> old) @ new_rows)"

definition select_max_date :: "engine \<Rightarrow> row list \<Rightarrow> scalar" where
  "select_max_date eng rows =
     (if rows = [] then SNull else date_repr eng (Max (set (map fst rows))))"

text \<open>Lines 98 to 113: the start of the fetch window for one ticker.\<close>

definition start_date_for :: "lib \<Rightarrow> engine \<Rightarrow> tables \<Rightarrow> string \<Rightarrow> exn + date" where
  "start_date_for L eng tb ticker =
     (let table_name = table_name_of ticker
      in case fault eng ticker Connect of
           Some e \<Rightarrow> Inl e
         | None \<Rightarrow>
             (case fault eng ticker HasTable of
                Some e \<Rightarrow> Inl e
              | None \<Rightarrow>
                  (case tb table_name of
                     None \<Rightarrow> Inr epoch_floor
                   | Some rows \<Rightarrow>
                       (case fault eng ticker SelectMax of
                          Some e \<Rightarrow> Inl e
                        | None \<Rightarrow> next_start_date L (select_max_date eng rows)))))"

text \<open>
  The body of the \<open>try\<close> for one ticker (lines 101 to 131). It ends normally with the
  new tables and the log lines, or an exception leaves it; the tables are then as they
  were, except when \<open>to_sql\<close> raised after writing. The \<open>logging.debug\<close> call of
  line 113 is below the configured level INFO and writes nothing.
\<close>

definition process_ticker :: "lib \<Rightarrow> engine \<Rightarrow> source \<Rightarrow> tables \<Rightarrow> string \<Rightarrow> exn \<times> tables + tables \<times> log_entry list" where
  "process_ticker L eng src tb ticker =
     (let table_name = table_name_of ticker
      in case start_date_for L eng tb ticker of
           Inl e \<Rightarrow> Inl (e, tb)
         | Inr start_date \<Rightarrow>
             (case src ticker start_date of
                Inl e \<Rightarrow> Inl (e, tb)
              | Inr df_new \<Rightarrow>
                  if empty_frame df_new
                  then Inr (tb, [(INFO, ''[%s] No new data available since %s.'', [AStr ticker, ADate start_date])])
                  else
                    (case prepare_rows L df_new of
                       Inl e \<Rightarrow> Inl (e, tb)
                     | Inr new_rows \<Rightarrow>
                         (case fault eng ticker ToSql of
                            Some e \<Rightarrow>
                              Inl (e, case written eng ticker of
                                        None \<Rightarrow> tb
                                      | Some k \<Rightarrow> appended tb table_name (take k new_rows))
                          | None \<Rightarrow>
                              Inr (appended tb table_name new_rows,
                                   [(INFO, ''[%s] Saved/Appended %d records to table `%s`.'',
                                     [AStr ticker, ANat (length new_rows), AStr table_name])])))))"

text \<open>
  One turn of the loop: the body, and the handler \<open>except Exception\<close> that logs and
  goes on. An exception of another class is not caught and leaves the loop.
\<close>

definition attempt :: "lib \<Rightarrow> engine \<Rightarrow> source \<Rightarrow> world \<Rightarrow> string \<Rightarrow> world" where
  "attempt L eng src w ticker =
     (case process_ticker L eng src (tables w) ticker of
        Inl (e, tb) \<Rightarrow>
          if isinstance e ''Exception''
          then \<lparr>tables = tb,
                logs = logs w @ [(ERROR, ''[%s] Failed to process ticker: %s'', [AStr ticker, AExn e])],
                escaped = None\<rparr>
          else \<lparr>tables = tb, logs = logs w, escaped = Some e\<rparr>
      | Inr (tb, lg) \<Rightarrow> \<lparr>tables = tb, logs = logs w @ lg, escaped = None\<rparr>)"

fun for_tickers :: "lib \<Rightarrow> engine \<Rightarrow> source \<Rightarrow> string list \<Rightarrow> world \<Rightarrow> world" where
  "for_tickers L eng src [] w = w"
| "for_tickers L eng src (ticker # rest) w =
     (case escaped w of
        Some e \<Rightarrow> w
      | None \<Rightarrow> for_tickers L eng src rest (attempt L eng src w ticker))"

definition fetch_historical_data :: "lib \<Rightarrow> engine \<Rightarrow> source \<Rightarrow> string list \<Rightarrow> world \<Rightarrow> world" where
  "fetch_historical_data L eng src ticker_list w =
     for_tickers L eng src ticker_list
       (w\<lparr>logs := logs w @ [(INFO, ''Starting historical data fetch for %d tickers...'', [ANat (length ticker_list)])]\<rparr>)"

text \<open>
  Notions used to state properties. The ticker a log line is about: every line the
  loop writes for a ticker starts with \<open>[%s]\<close> and carries the ticker as its first
  argument. An environment whose database calls and downloads raise nothing but
  instances of \<open>Exception\<close>. And a driver that reads a stored Date back: as the date, as
  a datetime on that date, or as a string that \<open>strptime\<close> parses to it.
\<close>

fun entry_ticker :: "log_entry \<Rightarrow> string option" where
  "entry_ticker (lvl, fmt, AStr t # args) = (if take 4 fmt = ''[%s]'' then Some t else None)"
| "entry_ticker _ = None"

definition raise_Exception_only :: "engine \<Rightarrow> source \<Rightarrow> bool" where
  "raise_Exception_only eng src \<longleftrightarrow>
     (\<forall>t op e. fault eng t op = Some e \<longrightarrow> isinstance e ''Exception'') \<and>
     (\<forall>t d e. src t d = Inl e \<longrightarrow> isinstance e ''Exception'')"

definition reads_back :: "lib \<Rightarrow> engine \<Rightarrow> date \<Rightarrow> bool" where
  "reads_back L eng d =
     (case date_repr eng d of
        SDate d' \<Rightarrow> d' = d
      | SDateTime d' t \<Rightarrow> d' = d
      | SStr s \<Rightarrow> strptime L s = Some d
      | _ \<Rightarrow> False)"

section \<open>app.py: the authenticated trigger and the background worker\<close>

text \<open>
  A header value is a string of characters below 256, as the server decodes it.
  \<open>py_isspace\<close> is the whitespace of \<open>str.split()\<close> in that range, \<open>py_lower\<close> is
  \<open>str.lower()\<close> there.
\<close>

definition py_isspace :: "char \<Rightarrow> bool" where
  "py_isspace c \<longleftrightarrow> (of_char c :: nat) \<in> {9, 10, 11, 12, 13, 28, 29, 30, 31, 32, 133, 160}"

fun split_from :: "string \<Rightarrow> string \<Rightarrow> string list" where
  "split_from word [] = (if word = [] then [] else [word])"
| "split_from word (c # cs) =
     (if py_isspace c then (if word = [] then split_from [] cs else word # split_from [] cs)
      else split_from (word @ [c]) cs)"

definition py_split :: "string \<Rightarrow> string list" where
  "py_split s = split_from [] s"

definition lower_char :: "char \<Rightarrow> char" where
  "lower_char c =
     (let n = (of_char c :: nat)
      in if (65 \<le> n \<and> n \<le> 90) \<or> (192 \<le> n \<and> n \<le> 222 \<and> n \<noteq> 215) then char_of (n + 32) else c)"

definition py_lower :: "string \<Rightarrow> string" where
  "py_lower s = map lower_char s"

text \<open>A response is the JSON object of its body and its status code.\<close>

datatype response = Response (body: "(string \<times> string) list") (status: nat)

text \<open>
  The decorator \<open>require_token\<close>, with the configured \<open>WEBHOOK_TOKEN\<close> as a parameter:
  the response that ends the request, or None when the wrapped view is called.
\<close>

definition require_token :: "string \<Rightarrow> string option \<Rightarrow> response option" where
  "require_token webhook_token auth_header =
     (case auth_header of
        None \<Rightarrow> Some (Response [(''error'', ''Missing authorization token'')] 401)
      | Some h \<Rightarrow>
          if h = [] then Some (Response [(''error'', ''Missing authorization token'')] 401)
          else
            (case py_split h of
               [auth_type, token] \<Rightarrow>
                 if py_lower auth_type \<noteq> ''bearer'' \<or> token \<noteq> webhook_token
                 then Some (Response [(''error'', ''Invalid token'')] 401)
                 else None
             | _ \<Rightarrow> Some (Response [(''error'', ''Invalid authorization header format'')] 401)))"

text \<open>
  The process state is the global flag, the lock, and the threads. Each request runs
  \<open>webhook_trigger\<close> (behind the decorator) on a thread of its own; an accepted request
  starts a thread running \<open>run_task_in_background\<close>. A thread is its program point:
  the statement it executes next. \<open>run_data_collection\<close> is called by the worker and is
  a parameter: it returns, raises an Exception, or raises an exception outside that class,
  which the \<open>except\<close> clause lets through and the thread re-raises after \<open>finally\<close>.
  The logging calls change nothing of this state and are left out.
\<close>

datatype run_outcome = Returns | Raises exn | Escapes exn

datatype pc =
    Request "string option"
  | Acquire
  | Check
  | Reject
  | SetFlag
  | Release
  | Spawn
  | Accept
  | Responded response
  | Run
  | Finally "exn option"
  | Reset "exn option"
  | Unlock "exn option"
  | Exited "exn option"

record app =
  task_running :: bool
  task_lock :: bool
  threads :: "pc list"

definition init :: app where
  "init = \<lparr>task_running = False, task_lock = False, threads = []\<rparr>"

definition set_pc :: "app \<Rightarrow> nat \<Rightarrow> pc \<Rightarrow> app" where
  "set_pc s i p = s\<lparr>threads := (threads s)[i := p]\<rparr>"

text \<open>
  One atomic action of thread \<open>i\<close> at program point \<open>p\<close>; None when the thread cannot
  move: it waits for the lock, it has ended, or it is inside \<open>run_data_collection\<close>.
  \<^item> \<open>Request h\<close>: the decorator, lines 28 to 42.
  \<^item> \<open>Acquire\<close>, \<open>Check\<close>, \<open>Reject\<close>, \<open>SetFlag\<close>, \<open>Release\<close>: the \<open>with task_lock\<close>
    block of \<open>webhook_trigger\<close>, lines 83 to 87; returning 429 leaves the block and
    releases the lock.
  \<^item> \<open>Spawn\<close>, \<open>Accept\<close>: lines 90 to 94.
  \<^item> \<open>Finally\<close>, \<open>Reset\<close>, \<open>Unlock\<close>: the \<open>finally\<close> block of the worker, lines 63 and 64.
\<close>

definition already_running :: response where
  "already_running =
     Response [(''status'', ''error''), (''message'', ''A task is already running. Please try again later.'')] 429"

definition accepted :: response where
  "accepted =
     Response [(''status'', ''success''), (''message'', ''Task accepted and is running in the background.'')] 202"

fun thread_step :: "string \<Rightarrow> app \<Rightarrow> nat \<Rightarrow> pc \<Rightarrow> app option" where
  "thread_step tok s i (Request h) =
     Some (set_pc s i (case require_token tok h of Some r \<Rightarrow> Responded r | None \<Rightarrow> Acquire))"
| "thread_step tok s i Acquire =
     (if task_lock s then None else Some (set_pc (s\<lparr>task_lock := True\<rparr>) i Check))"
| "thread_step tok s i Check =
     Some (set_pc s i (if task_running s then Reject else SetFlag))"
| "thread_step tok s i Reject =
     Some (set_pc (s\<lparr>task_lock := False\<rparr>) i
        (Responded already_running))"
| "thread_step tok s i SetFlag = Some (set_pc (s\<lparr>task_running := True\<rparr>) i Release)"
| "thread_step tok s i Release = Some (set_pc (s\<lparr>task_lock := False\<rparr>) i Spawn)"
| "thread_step tok s i Spawn = Some (s\<lparr>threads := (threads s)[i := Accept] @ [Run]\<rparr>)"
| "thread_step tok s i Accept =
     Some (set_pc s i
        (Responded accepted))"
| "thread_step tok s i (Responded r) = None"
| "thread_step tok s i Run = None"
| "thread_step tok s i (Finally pending) =
     (if task_lock s then None else Some (set_pc (s\<lparr>task_lock := True\<rparr>) i (Reset pending)))"
| "thread_step tok s i (Reset pending) = Some (set_pc (s\<lparr>task_running := False\<rparr>) i (Unlock pending))"
| "thread_step tok s i (Unlock pending) = Some (set_pc (s\<lparr>task_lock := False\<rparr>) i (Exited pending))"
| "thread_step tok s i (Exited pending) = None"

text \<open>
  What can happen next: a request arrives with some Authorization header, a thread takes
  its next action, or the \<open>run_data_collection\<close> call of a worker ends.
\<close>

datatype event = Arrive "string option" | Step nat | RunEnds nat run_outcome

definition step :: "string \<Rightarrow> app \<Rightarrow> event \<Rightarrow> app option" where
  "step tok s ev =
     (case ev of
        Arrive h \<Rightarrow> Some (s\<lparr>threads := threads s @ [Request h]\<rparr>)
      | Step i \<Rightarrow> if i < length (threads s) then thread_step tok s i (threads s ! i) else None
      | RunEnds i out \<Rightarrow>
          if i < length (threads s) \<and> threads s ! i = Run
          then Some (set_pc s i (Finally (case out of Escapes e \<Rightarrow> Some e | _ \<Rightarrow> None)))
          else None)"

fun exec :: "string \<Rightarrow> app \<Rightarrow> event list \<Rightarrow> app option" where
  "exec tok s [] = Some s"
| "exec tok s (ev # evs) = (case step tok s ev of None \<Rightarrow> None | Some s' \<Rightarrow> exec tok s' evs)"

text \<open>
  Program points inside a \<open>with task_lock\<close> block, program points of a run in progress
  (from the flag set to the flag reset), and worker threads that have not ended.
\<close>

fun holds_lock :: "pc \<Rightarrow> bool" where
  "holds_lock Check = True"
| "holds_lock Reject = True"
| "holds_lock SetFlag = True"
| "holds_lock Release = True"
| "holds_lock (Reset pending) = True"
| "holds_lock (Unlock pending) = True"
| "holds_lock _ = False"

fun in_run :: "pc \<Rightarrow> bool" where
  "in_run Release = True"
| "in_run Spawn = True"
| "in_run Run = True"
| "in_run (Finally pending) = True"
| "in_run (Reset pending) = True"
| "in_run _ = False"

fun worker_alive :: "pc \<Rightarrow> bool" where
  "worker_alive Run = True"
| "worker_alive (Finally pending) = True"
| "worker_alive (Reset pending) = True"
| "worker_alive (Unlock pending) = True"
| "worker_alive _ = False"

fun is_worker :: "pc \<Rightarrow> bool" where
  "is_worker (Exited pending) = True"
| "is_worker p = worker_alive p"

fun past_reset :: "pc \<Rightarrow> bool" where
  "past_reset (Unlock pending) = True"
| "past_reset (Exited pending) = True"
| "past_reset _ = False"

definition count_pcs :: "(pc \<Rightarrow> bool) \<Rightarrow> app \<Rightarrow> nat" where
  "count_pcs P s = length (filter P (threads s))"

fun at_reset :: "pc \<Rightarrow> bool" where
  "at_reset (Reset pending) = True"
| "at_reset _ = False"

fun has_exited :: "pc \<Rightarrow> bool" where
  "has_exited (Exited pending) = True"
| "has_exited _ = False"

text \<open>How often thread \<open>i\<close> executes the assignment \<open>task_running = False\<close> along a schedule.\<close>

fun resets :: "string \<Rightarrow> app \<Rightarrow> nat \<Rightarrow> event list \<Rightarrow> nat" where
  "resets tok s i [] = 0"
| "resets tok s i (ev # evs) =
     (case step tok s ev of
        None \<Rightarrow> 0
      | Some s' \<Rightarrow>
          (if ev = Step i \<and> at_reset (threads s ! i) then 1 else 0) + resets tok s' i evs)"

text \<open>
  The invariant of the process: the lock is held exactly when one thread is inside a
  \<open>with\<close> block, the flag is set exactly when one run is in progress, a thread about to
  set the flag has read it unset and it still is, and a worker that has reset the flag and
  still holds the lock finds it unset. And the program points of a request that has read
  the flag set.
\<close>

definition inv :: "app \<Rightarrow> bool" where
  "inv s \<longleftrightarrow>
     count_pcs holds_lock s = (if task_lock s then 1 else 0) \<and>
     count_pcs in_run s = (if task_running s then 1 else 0) \<and>
     (SetFlag \<in> set (threads s) \<longrightarrow> \<not> task_running s) \<and>
     (\<forall>pending. Unlock pending \<in> set (threads s) \<longrightarrow> \<not> task_running s)"

definition rejecting :: "app \<Rightarrow> nat \<Rightarrow> bool" where
  "rejecting s i \<longleftrightarrow>
     i < length (threads s) \<and>
     ((threads s ! i = Check \<and> task_running s) \<or> threads s ! i = Reject
        \<or> threads s ! i = Responded already_running)"

section \<open>Example inputs\<close>

text \<open>
  Concrete inputs on which the properties below are evaluated: a driver that returns stored
  dates as dates, no database faults, and an external source with three trading days of
  AAPL from 2024-01-02 (ordinal 738887), one of MSFT, a ticker BAD whose download raises
  (an HTTP error in one source, a KeyboardInterrupt in another), and the two spellings
  BRK-B and BRK.B.
\<close>

definition ex_lib :: lib where
  "ex_lib = \<lparr>strptime = (\<lambda>s. None), parse_numeric = (\<lambda>s. None)\<rparr>"

definition ex_engine :: engine where
  "ex_engine = \<lparr>fault = (\<lambda>t op. None), date_repr = SDate, written = (\<lambda>t. None)\<rparr>"

text \<open>A database whose \<open>to_sql\<close> loses the connection after the first row of a batch.\<close>

definition ex_lossy_engine :: engine where
  "ex_lossy_engine =
     \<lparr>fault = (\<lambda>t op. if op = ToSql then Some (Exn ''OperationalError'' ''connection lost'') else None),
      date_repr = SDate, written = (\<lambda>t. Some 1)\<rparr>"

definition no_rows :: frame where
  "no_rows = \<lparr>index = [], columns = []\<rparr>"

definition ex_source :: source where
  "ex_source t d =
     (if t = ''AAPL'' then
        (if d \<le> 738887
         then Inr \<lparr>index = [(738887, 0), (738888, 0), (738889, 0)],
                  columns = [(''Close'', [Num 185, Num 184, Num 181])]\<rparr>
         else Inr no_rows)
      else if t = ''MSFT'' then
        (if d \<le> 738887 then Inr \<lparr>index = [(738887, 0)], columns = [(''Close'', [Num 370])]\<rparr>
         else Inr no_rows)
      else if t = ''BRK-B'' then
        (if d \<le> 738887
         then Inr \<lparr>index = [(738887, 0), (738888, 0)], columns = [(''Close'', [Num 362, Num 363])]\<rparr>
         else Inr no_rows)
      else if t = ''BRK.B'' then
        (if d \<le> 738889 then Inr \<lparr>index = [(738889, 0)], columns = [(''Close'', [Num 361])]\<rparr>
         else Inr no_rows)
      else if t = ''BAD'' then Inl (Exn ''HTTPError'' ''404'')
      else Inr no_rows)"

definition ex_interrupted_source :: source where
  "ex_interrupted_source t d =
     (if t = ''BAD'' then Inl (Instance [''KeyboardInterrupt'', ''BaseException''] ''interrupted'')
      else ex_source t d)"

definition ex_bad_source :: source where
  "ex_bad_source t d =
     Inr \<lparr>index = [(738887, 0), (738888, 0)],
          columns = [(''Open'', [Num 185, Str ''n/a'']), (''Close'', [Num 184, Num 185])]\<rparr>"

definition ex_dow_down :: sources where
  "ex_dow_down = \<lparr>tickers_sp500 = Inr [''AAPL''], tickers_dow = Inl (Exn ''ConnectionError'' ''unreachable''),
     tickers_nasdaq = Inr [''MSFT''], tickers_etfs = Inr [''SPY'']\<rparr>"

definition ex_all_up :: sources where
  "ex_all_up = \<lparr>tickers_sp500 = Inr [''AAPL''], tickers_dow = Inr [''IBM''],
     tickers_nasdaq = Inr [''MSFT''], tickers_etfs = Inr [''SPY'']\<rparr>"

definition ex_sp500_down :: sources where
  "ex_sp500_down = \<lparr>tickers_sp500 = Inl (Exn ''ConnectionError'' ''unreachable''), tickers_dow = Inr [''IBM''],
     tickers_nasdaq = Inr [''MSFT''], tickers_etfs = Inl (Exn ''AttributeError'' ''tickers_etfs'')\<rparr>"

definition ex_index_interrupted :: sources where
  "ex_index_interrupted = \<lparr>tickers_sp500 = Inl (Instance [''KeyboardInterrupt'', ''BaseException''] ''interrupted''),
     tickers_dow = Inr [''IBM''], tickers_nasdaq = Inr [''MSFT''], tickers_etfs = Inr [''SPY'']\<rparr>"

definition ex_token :: string where
  "ex_token = ''s3cret''"

definition ex_schedule :: "event list" where
  "ex_schedule =
     [Arrive (Some ''Bearer s3cret''), Step 0, Step 0, Step 0, Step 0, Step 0, Step 0, Step 0,
      Arrive (Some ''Bearer s3cret''), Step 2, Step 2]"

definition ex_accept_schedule :: "event list" where
  "ex_accept_schedule =
     [Arrive (Some ''Bearer s3cret''), Step 0, Step 0, Step 0, Step 0, Step 0, Step 0, Step 0]"

definition ex_started :: app where
  "ex_started = \<lparr>task_running = True, task_lock = False, threads = [Responded accepted, Run]\<rparr>"

definition ex_running :: app where
  "ex_running = \<lparr>task_running = True, task_lock = True, threads = [Responded accepted, Run, Check]\<rparr>"

definition ex_world :: world where
  "ex_world = \<lparr>tables = Map.empty, logs = [], escaped = None\<rparr>"

section \<open>Properties of the ticker universe\<close>

lemma fetch_all_tickers_cases:
  obtains (index_escapes) e where "snd (snd (fetch_index_tickers si)) = Some e"
      "fetch_all_tickers si =
         ([], (INFO, ''Fetching list of all tickers from yahoo_fin...'', []) # fst (snd (fetch_index_tickers si)), Some e)"
  | (etf_escapes) e where "snd (snd (fetch_index_tickers si)) = None" "snd (snd (fetch_etf_tickers si)) = Some e"
      "fetch_all_tickers si =
         ([], (INFO, ''Fetching list of all tickers from yahoo_fin...'', []) # fst (snd (fetch_index_tickers si))
                @ fst (snd (fetch_etf_tickers si)), Some e)"
  | (returns) "snd (snd (fetch_index_tickers si)) = None" "snd (snd (fetch_etf_tickers si)) = None"
      "fetch_all_tickers si =
         (filter valid_ticker (sort (remdups (fst (fetch_index_tickers si) @ fst (fetch_etf_tickers si)))),
          (INFO, ''Fetching list of all tickers from yahoo_fin...'', []) # fst (snd (fetch_index_tickers si))
            @ fst (snd (fetch_etf_tickers si))
            @ [(INFO, ''Found %d unique, valid tickers for DB.'',
                [ANat (length (filter valid_ticker (sort (remdups (fst (fetch_index_tickers si) @ fst (fetch_etf_tickers si))))))])],
          None)"
proof (cases "snd (snd (fetch_index_tickers si))")
  case (Some e)
  then have "fetch_all_tickers si =
         ([], (INFO, ''Fetching list of all tickers from yahoo_fin...'', []) # fst (snd (fetch_index_tickers si)), Some e)"
    by (simp add: fetch_all_tickers_def Let_def case_prod_beta)
  with Some show ?thesis by (rule index_escapes)
next
  case None
  show ?thesis
  proof (cases "snd (snd (fetch_etf_tickers si))")
    case (Some e)
    with None have "fetch_all_tickers si =
         ([], (INFO, ''Fetching list of all tickers from yahoo_fin...'', []) # fst (snd (fetch_index_tickers si))
                @ fst (snd (fetch_etf_tickers si)), Some e)"
      by (simp add: fetch_all_tickers_def Let_def case_prod_beta)
    with None Some show ?thesis by (rule etf_escapes)
  next
    case n2: None
    with None have "fetch_all_tickers si =
         (filter valid_ticker (sort (remdups (fst (fetch_index_tickers si) @ fst (fetch_etf_tickers si)))),
          (INFO, ''Fetching list of all tickers from yahoo_fin...'', []) # fst (snd (fetch_index_tickers si))
            @ fst (snd (fetch_etf_tickers si))
            @ [(INFO, ''Found %d unique, valid tickers for DB.'',
                [ANat (length (filter valid_ticker (sort (remdups (fst (fetch_index_tickers si) @ fst (fetch_etf_tickers si))))))])],
          None)"
      by (simp add: fetch_all_tickers_def Let_def case_prod_beta)
    with None n2 show ?thesis by (rule returns)
  qed
qed

lemma universe_sorted_distinct:
  "sorted (fst (fetch_all_tickers si)) \<and> distinct (fst (fetch_all_tickers si))"
  by (cases si rule: fetch_all_tickers_cases)
     (simp_all add: sorted_filter [where f = "\<lambda>x. x", simplified])

lemma universe_valid:
  "t \<in> set (fst (fetch_all_tickers si)) \<Longrightarrow> re_search_ticker t \<and> length t \<le> 64"
  by (cases si rule: fetch_all_tickers_cases) (simp_all add: valid_ticker_def)

lemma newline_not_ticker_char: "\<not> ticker_char (CHR 0x0A)"
  by (simp add: ticker_char_def)

lemma re_search_ticker_shape:
  "re_search_ticker t \<longleftrightarrow>
     (\<exists>body. body \<noteq> [] \<and> list_all ticker_char body \<and> (t = body \<or> t = body @ [CHR 0x0A]))"
proof
  assume m: "re_search_ticker t"
  let ?b = "takeWhile ticker_char t"
  have "t = ?b @ dropWhile ticker_char t" by simp
  moreover have "list_all ticker_char ?b"
    by (auto simp: list_all_iff dest: set_takeWhileD)
  moreover from m have "?b \<noteq> []" "dropWhile ticker_char t = [] \<or> dropWhile ticker_char t = [CHR 0x0A]"
    by (auto simp: re_search_ticker_def Let_def)
  ultimately show "\<exists>body. body \<noteq> [] \<and> list_all ticker_char body \<and> (t = body \<or> t = body @ [CHR 0x0A])"
    by (metis append_Nil2)
next
  assume "\<exists>body. body \<noteq> [] \<and> list_all ticker_char body \<and> (t = body \<or> t = body @ [CHR 0x0A])"
  then obtain body where b: "body \<noteq> []" "list_all ticker_char body"
    and t: "t = body \<or> t = body @ [CHR 0x0A]" by blast
  from b(2) have all: "\<forall>x \<in> set body. ticker_char x" by (simp add: list_all_iff)
  then have tw: "takeWhile ticker_char body = body" and dw: "dropWhile ticker_char body = []"
    by (simp_all add: takeWhile_eq_all_conv)
  from t show "re_search_ticker t"
  proof
    assume "t = body"
    then show ?thesis unfolding re_search_ticker_def Let_def using tw dw b(1) by (simp only: simp_thms)
  next
    assume "t = body @ [CHR 0x0A]"
    moreover have "takeWhile ticker_char (body @ [CHR 0x0A]) = body"
      using all newline_not_ticker_char by (simp add: takeWhile_append2)
    moreover have "dropWhile ticker_char (body @ [CHR 0x0A]) = [CHR 0x0A]"
      using all newline_not_ticker_char by (simp add: dropWhile_append2)
    ultimately show ?thesis unfolding re_search_ticker_def Let_def using b(1) by (simp only: simp_thms)
  qed
qed

text \<open>
  Claim C8 (universe validity). The resolved list is sorted and without duplicates, and
  every member passes the filter and has at most 64 characters
  (\<open>universe_sorted_distinct\<close>, \<open>universe_valid\<close>). The filter itself accepts a
  candidate that ends in a newline, because \<open>$\<close> matches before a final newline
  (\<open>re_search_ticker_shape\<close>): a listing source that yields the candidate AAPL followed
  by a newline gets it into the universe, although the newline is outside the alphabet of
  uppercase letters, hyphen and dot.
\<close>

theorem trailing_newline_ticker_accepted:
  "fst (fetch_all_tickers \<lparr>tickers_sp500 = Inr [''AAPL\<newline>''], tickers_dow = Inr [],
          tickers_nasdaq = Inr [], tickers_etfs = Inr []\<rparr>) = [''AAPL\<newline>'']
   \<and> \<not> list_all ticker_char ''AAPL\<newline>''"
  by (simp add: fetch_all_tickers_def fetch_index_tickers_def fetch_etf_tickers_def valid_ticker_def
      re_search_ticker_def ticker_char_def)

section \<open>Properties of the incremental fetch\<close>

lemma epoch_floor_value: "epoch_floor = 711858"
  by (simp add: epoch_floor_def ymd2ord_def days_before_year_def days_before_month_def)

lemma date_max_value: "date_max = 3652059"
  by (simp add: date_max_def ymd2ord_def days_before_year_def days_before_month_def is_leap_def)

lemmas ex_defs = ex_lib_def ex_engine_def ex_source_def ex_world_def no_rows_def
lemmas run_defs = fetch_historical_data_def attempt_def process_ticker_def start_date_for_def
  Let_def table_name_of_def replace_char_def empty_frame_def prepare_rows_def numeric_columns_def
  select_max_date_def next_start_date_def add_one_day_def to_numeric_cell_def appended_def
  isinstance_def epoch_floor_value date_max_value

lemma rows_of_dates: "map fst (rows_of ds cols) = ds"
  by (induction ds arbitrary: cols) simp_all

lemma prepare_rows_dates: "prepare_rows L df = Inr rows \<Longrightarrow> map fst rows = map fst (index df)"
  by (auto simp: prepare_rows_def Let_def rows_of_dates split: sum.splits)

text \<open>The ways the body of the loop ends.\<close>

lemma process_ticker_cases:
  assumes "process_ticker L eng src tb t = Inr (tb', lg)"
  obtains (no_data) d df where "start_date_for L eng tb t = Inr d" "src t d = Inr df" "empty_frame df"
      "tb' = tb" "lg = [(INFO, ''[%s] No new data available since %s.'', [AStr t, ADate d])]"
  | (saved) d df new where "start_date_for L eng tb t = Inr d" "src t d = Inr df" "\<not> empty_frame df"
      "prepare_rows L df = Inr new" "fault eng t ToSql = None"
      "tb' = appended tb (table_name_of t) new"
      "lg = [(INFO, ''[%s] Saved/Appended %d records to table `%s`.'', [AStr t, ANat (length new), AStr (table_name_of t)])]"
  using assms
  by (auto simp: process_ticker_def Let_def split: sum.splits option.splits if_splits)

lemma process_ticker_raised:
  assumes "process_ticker L eng src tb t = Inl (e, tb')"
  obtains (window) "start_date_for L eng tb t = Inl e" "tb' = tb"
  | (download) d where "start_date_for L eng tb t = Inr d" "src t d = Inl e" "tb' = tb"
  | (conversion) d df where "start_date_for L eng tb t = Inr d" "src t d = Inr df" "\<not> empty_frame df"
      "prepare_rows L df = Inl e" "tb' = tb"
  | (to_sql) d df new where "start_date_for L eng tb t = Inr d" "src t d = Inr df" "\<not> empty_frame df"
      "prepare_rows L df = Inr new" "fault eng t ToSql = Some e"
      "tb' = (case written eng t of None \<Rightarrow> tb | Some k \<Rightarrow> appended tb (table_name_of t) (take k new))"
  using assms
  by (auto simp: process_ticker_def Let_def split: sum.splits option.splits if_splits)

lemma process_ticker_no_data:
  assumes "start_date_for L eng tb t = Inr d" "src t d = Inr df" "empty_frame df"
  shows "process_ticker L eng src tb t =
     Inr (tb, [(INFO, ''[%s] No new data available since %s.'', [AStr t, ADate d])])"
  using assms by (simp add: process_ticker_def Let_def)

lemma process_ticker_saved:
  assumes "start_date_for L eng tb X = Inr d" "src X d = Inr df" "\<not> empty_frame df"
    "prepare_rows L df = Inr new" "fault eng X ToSql = None"
  shows "process_ticker L eng src tb X =
     Inr (appended tb (table_name_of X) new,
          [(INFO, ''[%s] Saved/Appended %d records to table `%s`.'', [AStr X, ANat (length new), AStr (table_name_of X)])])"
  using assms by (simp add: process_ticker_def Let_def)

text \<open>The exceptions the program raises itself are instances of \<open>Exception\<close>.\<close>

lemma add_one_day_raises: "add_one_day d = Inl e \<Longrightarrow> isinstance e ''Exception''"
  by (auto simp: add_one_day_def isinstance_def split: if_splits)

lemma next_start_date_raises: "next_start_date L r = Inl e \<Longrightarrow> isinstance e ''Exception''"
  by (auto simp: next_start_date_def isinstance_def dest: add_one_day_raises split: scalar.splits option.splits)

lemma start_date_for_raises:
  assumes "start_date_for L eng tb t = Inl e" "\<forall>op e. fault eng t op = Some e \<longrightarrow> isinstance e ''Exception''"
  shows "isinstance e ''Exception''"
  using assms
  by (auto simp: start_date_for_def Let_def dest: next_start_date_raises split: option.splits)

lemma to_numeric_raises_Exception: "to_numeric L cs = Inl e \<Longrightarrow> isinstance e ''Exception''"
proof (induction cs)
  case Nil
  then show ?case by simp
next
  case (Cons c cs)
  show ?case
  proof (cases "to_numeric_cell L c")
    case (Inl e')
    with Cons.prems have "e' = e" by simp
    with Inl show ?thesis
      by (auto simp: to_numeric_cell_def isinstance_def split: cell.splits option.splits if_splits)
  next
    case (Inr c')
    with Cons.prems have "to_numeric L cs = Inl e" by (auto split: sum.splits)
    then show ?thesis by (rule Cons.IH)
  qed
qed

lemma coerce_columns_raises: "coerce_columns L names cols = Inl e \<Longrightarrow> isinstance e ''Exception''"
proof (induction names arbitrary: cols)
  case Nil
  then show ?case by simp
next
  case (Cons n names)
  show ?case
  proof (cases "map_of cols n")
    case None
    with Cons.prems have "coerce_columns L names cols = Inl e" by simp
    then show ?thesis by (rule Cons.IH)
  next
    case (Some cs)
    show ?thesis
    proof (cases "to_numeric L cs")
      case (Inl e')
      with Some Cons.prems have "e' = e" by simp
      with Inl show ?thesis by (auto dest: to_numeric_raises_Exception)
    next
      case (Inr cs')
      with Some Cons.prems have "coerce_columns L names (AList.update n cs' cols) = Inl e" by simp
      then show ?thesis by (rule Cons.IH)
    qed
  qed
qed

lemma prepare_rows_raises: "prepare_rows L df = Inl e \<Longrightarrow> isinstance e ''Exception''"
  by (auto simp: prepare_rows_def Let_def dest: coerce_columns_raises split: sum.splits)

lemma process_ticker_raises_Exception:
  assumes "raise_Exception_only eng src" "process_ticker L eng src tb t = Inl (e, tb')"
  shows "isinstance e ''Exception''"
  using assms(2)
proof (cases rule: process_ticker_raised)
  case window
  then show ?thesis using assms(1) start_date_for_raises [of L eng tb t e]
    by (simp add: raise_Exception_only_def)
next
  case (download d)
  then show ?thesis using assms(1) by (simp add: raise_Exception_only_def)
next
  case (conversion d df)
  then show ?thesis by (simp add: prepare_rows_raises)
next
  case (to_sql d df new)
  then show ?thesis using assms(1) by (simp add: raise_Exception_only_def)
qed

text \<open>One turn of the loop: its log, its tables, and whether an exception leaves it.\<close>

lemma attempt_logs_prefix: "\<exists>es. logs (attempt L eng src w t) = logs w @ es"
  by (cases "process_ticker L eng src (tables w) t") (auto simp: attempt_def)

lemma attempt_caught:
  assumes "raise_Exception_only eng src"
  shows "escaped (attempt L eng src w t) = None \<and>
         (\<exists>entry. logs (attempt L eng src w t) = logs w @ [entry] \<and> entry_ticker entry = Some t)"
proof (cases "process_ticker L eng src (tables w) t")
  case (Inl r)
  obtain e tb where r: "r = (e, tb)" by (cases r)
  from process_ticker_raises_Exception [OF assms Inl [unfolded r]]
  show ?thesis by (simp add: attempt_def Inl r)
next
  case (Inr r)
  obtain tb lg where r: "r = (tb, lg)" by (cases r)
  from Inr [unfolded r] show ?thesis
    by (cases rule: process_ticker_cases) (simp_all add: attempt_def Inr r)
qed

lemma attempt_failed:
  assumes "process_ticker L eng src (tables w) t = Inl (e, tb)" "isinstance e ''Exception''"
  shows "attempt L eng src w t =
     \<lparr>tables = tb, logs = logs w @ [(ERROR, ''[%s] Failed to process ticker: %s'', [AStr t, AExn e])],
      escaped = None\<rparr>"
  using assms by (simp add: attempt_def)

lemma attempt_tables:
  "tables (attempt L eng src w t) =
     (case process_ticker L eng src (tables w) t of Inl r \<Rightarrow> snd r | Inr r \<Rightarrow> fst r)"
  by (cases "process_ticker L eng src (tables w) t") (auto simp: attempt_def)

lemma attempt_escaped:
  "escaped (attempt L eng src w t) =
     (case process_ticker L eng src (tables w) t of
        Inl r \<Rightarrow> if isinstance (fst r) ''Exception'' then None else Some (fst r)
      | Inr r \<Rightarrow> None)"
  by (cases "process_ticker L eng src (tables w) t") (auto simp: attempt_def)

lemma attempt_cong:
  assumes "tables w = tables w'"
  shows "tables (attempt L eng src w t) = tables (attempt L eng src w' t)"
    and "escaped (attempt L eng src w t) = escaped (attempt L eng src w' t)"
  unfolding attempt_tables attempt_escaped assms by (rule refl)+

lemma attempt_extends:
  assumes n: "tables w n = Some rows"
  shows "\<exists>more. tables (attempt L eng src w t) n = Some (rows @ more)"
proof (cases "process_ticker L eng src (tables w) t")
  case (Inl r)
  obtain e tb where r: "r = (e, tb)" by (cases r)
  have att: "tables (attempt L eng src w t) = tb" by (simp add: attempt_tables Inl r)
  from Inl [unfolded r] show ?thesis
  proof (cases rule: process_ticker_raised)
    case (to_sql d df new)
    show ?thesis
    proof (cases "written eng t")
      case None
      with to_sql(6) n att show ?thesis by simp
    next
      case (Some k)
      with to_sql(6) n att show ?thesis
        by (cases "n = table_name_of t") (simp_all add: appended_def)
    qed
  qed (use n att in simp_all)
next
  case (Inr r)
  obtain tb lg where r: "r = (tb, lg)" by (cases r)
  have att: "tables (attempt L eng src w t) = tb" by (simp add: attempt_tables Inr r)
  from Inr [unfolded r] show ?thesis
  proof (cases rule: process_ticker_cases)
    case (no_data d df)
    then show ?thesis using n att by simp
  next
    case (saved d df new)
    with n att show ?thesis
      by (cases "n = table_name_of t") (simp_all add: appended_def)
  qed
qed

text \<open>The loop.\<close>

lemma for_tickers_escaped: "escaped w = Some e \<Longrightarrow> for_tickers L eng src ts w = w"
  by (cases ts) simp_all

lemma for_tickers_append:
  "for_tickers L eng src (a @ b) w = for_tickers L eng src b (for_tickers L eng src a w)"
proof (induction a arbitrary: w)
  case Nil
  then show ?case by simp
next
  case (Cons t a)
  show ?case
  proof (cases "escaped w")
    case None
    with Cons.IH show ?thesis by simp
  next
    case (Some e)
    then show ?thesis by (simp add: for_tickers_escaped)
  qed
qed

lemma for_tickers_cong:
  assumes "tables w = tables w'" "escaped w = escaped w'"
  shows "tables (for_tickers L eng src ts w) = tables (for_tickers L eng src ts w')
       \<and> escaped (for_tickers L eng src ts w) = escaped (for_tickers L eng src ts w')"
  using assms
proof (induction ts arbitrary: w w')
  case Nil
  then show ?case by simp
next
  case (Cons t ts)
  show ?case
  proof (cases "escaped w")
    case (Some e)
    moreover from Some Cons.prems(2) have "escaped w' = Some e" by simp
    ultimately show ?thesis using Cons.prems(1) by simp
  next
    case None
    note a = attempt_cong [OF Cons.prems(1), of L eng src t]
    from Cons.IH [OF a] None Cons.prems(2) show ?thesis by simp
  qed
qed

lemma for_tickers_logs_prefix: "\<exists>es. logs (for_tickers L eng src ts w) = logs w @ es"
proof (induction ts arbitrary: w)
  case Nil
  then show ?case by simp
next
  case (Cons t ts)
  show ?case
  proof (cases "escaped w")
    case (Some e)
    then show ?thesis by simp
  next
    case None
    obtain es1 where 1: "logs (attempt L eng src w t) = logs w @ es1"
      using attempt_logs_prefix by blast
    obtain es2 where 2: "logs (for_tickers L eng src ts (attempt L eng src w t)) = logs (attempt L eng src w t) @ es2"
      using Cons.IH by blast
    from 1 2 None have "logs (for_tickers L eng src (t # ts) w) = logs w @ (es1 @ es2)" by simp
    then show ?thesis by blast
  qed
qed

lemma for_tickers_logs_mono: "set (logs w) \<subseteq> set (logs (for_tickers L eng src ts w))"
  using for_tickers_logs_prefix [of L eng src ts w] by auto

lemma for_tickers_caught:
  assumes "raise_Exception_only eng src" "escaped w = None"
  shows "escaped (for_tickers L eng src ts w) = None \<and>
         (\<exists>es. logs (for_tickers L eng src ts w) = logs w @ es \<and> map entry_ticker es = map Some ts)"
  using assms(2)
proof (induction ts arbitrary: w)
  case Nil
  then show ?case by simp
next
  case (Cons t ts)
  from attempt_caught [OF assms(1), of L w t] obtain entry where
    a: "escaped (attempt L eng src w t) = None" "logs (attempt L eng src w t) = logs w @ [entry]"
      "entry_ticker entry = Some t"
    by blast
  from Cons.IH [OF a(1)] obtain es where
    b: "escaped (for_tickers L eng src ts (attempt L eng src w t)) = None"
      "logs (for_tickers L eng src ts (attempt L eng src w t)) = logs (attempt L eng src w t) @ es"
      "map entry_ticker es = map Some ts"
    by blast
  have "logs (for_tickers L eng src (t # ts) w) = logs w @ (entry # es)"
    using Cons.prems a(2) b(2) by simp
  moreover have "map entry_ticker (entry # es) = map Some (t # ts)" using a(3) b(3) by simp
  moreover have "escaped (for_tickers L eng src (t # ts) w) = None" using Cons.prems b(1) by simp
  ultimately show ?case by blast
qed

lemma for_tickers_extends:
  "tables w n = Some rows \<Longrightarrow> \<exists>more. tables (for_tickers L eng src ts w) n = Some (rows @ more)"
proof (induction ts arbitrary: w rows)
  case Nil
  then show ?case by simp
next
  case (Cons t ts)
  show ?case
  proof (cases "escaped w")
    case (Some e)
    with Cons.prems show ?thesis by simp
  next
    case None
    from attempt_extends [OF Cons.prems] obtain m1 where
      "tables (attempt L eng src w t) n = Some (rows @ m1)" by blast
    from Cons.IH [OF this] obtain m2 where
      "tables (for_tickers L eng src ts (attempt L eng src w t)) n = Some ((rows @ m1) @ m2)" by blast
    with None show ?thesis by auto
  qed
qed

lemma fetch_tables: "tables (fetch_historical_data L eng src ts w) = tables (for_tickers L eng src ts w)"
  unfolding fetch_historical_data_def
  using for_tickers_cong [of "w\<lparr>logs := logs w @ [(INFO, ''Starting historical data fetch for %d tickers...'', [ANat (length ts)])]\<rparr>" w]
  by simp

text \<open>
  Claim C3 (bulkhead isolation), for an environment whose database calls and downloads
  raise instances of \<open>Exception\<close>, the class the handler of the loop names. The loop
  writes exactly one log line per ticker of the list, in order, and no exception leaves
  it: every entity is attempted, whatever fails. If the body raises \<open>e\<close> for the entity
  \<open>X\<close>, the error line with \<open>X\<close> and \<open>e\<close> is in the log. If all stages succeed for
  \<open>X\<close>, the rows prepared from its frame are in its table at the end of the run,
  whatever happened to the entities before and after it.
\<close>

theorem bulkhead_isolation:
  assumes "raise_Exception_only eng src" "escaped w = None"
  shows "(\<exists>es. logs (fetch_historical_data L eng src ts w) =
            logs w @ (INFO, ''Starting historical data fetch for %d tickers...'', [ANat (length ts)]) # es
          \<and> map entry_ticker es = map Some ts)
   \<and> escaped (fetch_historical_data L eng src ts w) = None
   \<and> (\<forall>pre X post e tb'.
        ts = pre @ X # post \<and> process_ticker L eng src (tables (for_tickers L eng src pre w)) X = Inl (e, tb') \<longrightarrow>
          (ERROR, ''[%s] Failed to process ticker: %s'', [AStr X, AExn e]) \<in> set (logs (fetch_historical_data L eng src ts w)))
   \<and> (\<forall>pre X post d df new.
        ts = pre @ X # post \<and> start_date_for L eng (tables (for_tickers L eng src pre w)) X = Inr d \<and>
        src X d = Inr df \<and> \<not> empty_frame df \<and> prepare_rows L df = Inr new \<and> fault eng X ToSql = None \<longrightarrow>
          (\<exists>before after. tables (fetch_historical_data L eng src ts w) (table_name_of X) = Some (before @ new @ after)))"
proof -
  define w0 where "w0 = w\<lparr>logs := logs w @ [(INFO, ''Starting historical data fetch for %d tickers...'', [ANat (length ts)])]\<rparr>"
  have fetch: "fetch_historical_data L eng src ts w = for_tickers L eng src ts w0"
    by (simp add: fetch_historical_data_def w0_def)
  have tw0: "tables w0 = tables w" and ew0: "escaped w0 = None" using assms(2) by (simp_all add: w0_def)
  have lw0: "logs w0 = logs w @ [(INFO, ''Starting historical data fetch for %d tickers...'', [ANat (length ts)])]"
    by (simp add: w0_def)
  have pre_tables: "tables (for_tickers L eng src pre w0) = tables (for_tickers L eng src pre w)" for pre
    using for_tickers_cong [OF tw0, of L eng src pre] ew0 assms(2) by simp
  have pre_caught: "escaped (for_tickers L eng src pre w0) = None" for pre
    using for_tickers_caught [OF assms(1) ew0] by blast
  obtain es where es: "logs (for_tickers L eng src ts w0) = logs w0 @ es" "map entry_ticker es = map Some ts"
    using for_tickers_caught [OF assms(1) ew0, of L ts] by blast
  have part1: "\<exists>es. logs (fetch_historical_data L eng src ts w) =
            logs w @ (INFO, ''Starting historical data fetch for %d tickers...'', [ANat (length ts)]) # es
          \<and> map entry_ticker es = map Some ts"
    using es unfolding fetch lw0 by simp
  have part2: "escaped (fetch_historical_data L eng src ts w) = None"
    unfolding fetch by (rule pre_caught)
  have split: "fetch_historical_data L eng src ts w = for_tickers L eng src post (attempt L eng src (for_tickers L eng src pre w0) X)"
    if ts: "ts = pre @ X # post" for pre X post
    using fetch pre_caught [of pre] unfolding ts by (simp add: for_tickers_append)
  have part3: "(ERROR, ''[%s] Failed to process ticker: %s'', [AStr X, AExn e]) \<in> set (logs (fetch_historical_data L eng src ts w))"
    if ts: "ts = pre @ X # post" and fail: "process_ticker L eng src (tables (for_tickers L eng src pre w)) X = Inl (e, tb')"
    for pre X post e tb'
  proof -
    define w1 where "w1 = for_tickers L eng src pre w0"
    define err where "err = (ERROR, ''[%s] Failed to process ticker: %s'', [AStr X, AExn e])"
    have t1: "tables w1 = tables (for_tickers L eng src pre w)" unfolding w1_def by (rule pre_tables)
    from fail have f: "process_ticker L eng src (tables w1) X = Inl (e, tb')" by (simp only: t1)
    from process_ticker_raises_Exception [OF assms(1) f] have "isinstance e ''Exception''" .
    from attempt_failed [OF f this] have "err \<in> set (logs (attempt L eng src w1 X))"
      by (simp add: err_def)
    then show ?thesis
      using for_tickers_logs_mono [of "attempt L eng src w1 X" L eng src post]
      unfolding split [OF ts] w1_def err_def by blast
  qed
  have part4: "\<exists>before after. tables (fetch_historical_data L eng src ts w) (table_name_of X) = Some (before @ new @ after)"
    if ts: "ts = pre @ X # post" and sd: "start_date_for L eng (tables (for_tickers L eng src pre w)) X = Inr d"
      and sx: "src X d = Inr df" and ne: "\<not> empty_frame df" and pr: "prepare_rows L df = Inr new"
      and ft: "fault eng X ToSql = None"
    for pre X post d df new
  proof -
    define w1 where "w1 = for_tickers L eng src pre w0"
    define old where "old = (case tables w1 (table_name_of X) of None \<Rightarrow> [] | Some old \<Rightarrow> old)"
    have t1: "tables w1 = tables (for_tickers L eng src pre w)" unfolding w1_def by (rule pre_tables)
    from sd have "start_date_for L eng (tables w1) X = Inr d" by (simp only: t1)
    from process_ticker_saved [where src = src, OF this sx ne pr ft]
    have "tables (attempt L eng src w1 X) (table_name_of X) = Some (old @ new)"
      unfolding old_def by (simp add: attempt_tables appended_def)
    from for_tickers_extends [OF this, of L eng src post] obtain more where
      "tables (for_tickers L eng src post (attempt L eng src w1 X)) (table_name_of X) = Some ((old @ new) @ more)"
      by blast
    then have "tables (fetch_historical_data L eng src ts w) (table_name_of X) = Some (old @ new @ more)"
      unfolding split [OF ts] w1_def by simp
    then show ?thesis by blast
  qed
  from part1 part2 part3 part4 show ?thesis by blast
qed

lemma ex_raise_Exception_only: "raise_Exception_only ex_engine ex_source"
  by (auto simp: raise_Exception_only_def ex_engine_def ex_source_def isinstance_def split: if_splits)

theorem bulkhead_isolation_witness:
  "(\<exists>es. logs (fetch_historical_data ex_lib ex_engine ex_source [''AAPL'', ''BAD'', ''MSFT''] ex_world) =
       (INFO, ''Starting historical data fetch for %d tickers...'', [ANat 3]) # es
       \<and> map entry_ticker es = [Some ''AAPL'', Some ''BAD'', Some ''MSFT''])
   \<and> (ERROR, ''[%s] Failed to process ticker: %s'', [AStr ''BAD'', AExn (Exn ''HTTPError'' ''404'')])
        \<in> set (logs (fetch_historical_data ex_lib ex_engine ex_source [''AAPL'', ''BAD'', ''MSFT''] ex_world))
   \<and> (\<exists>before after.
        tables (fetch_historical_data ex_lib ex_engine ex_source [''AAPL'', ''BAD'', ''MSFT''] ex_world) ''MSFT''
          = Some (before @ [(738887, [(''Close'', Num 370)])] @ after))"
proof -
  have w: "logs ex_world = []" "escaped ex_world = None" by (simp_all add: ex_world_def)
  note b = bulkhead_isolation [OF ex_raise_Exception_only w(2), of ex_lib "[''AAPL'', ''BAD'', ''MSFT'']"]
  from b have "\<exists>es. logs (fetch_historical_data ex_lib ex_engine ex_source [''AAPL'', ''BAD'', ''MSFT''] ex_world) =
       logs ex_world @ (INFO, ''Starting historical data fetch for %d tickers...'', [ANat (length [''AAPL'', ''BAD'', ''MSFT''])]) # es
       \<and> map entry_ticker es = map Some [''AAPL'', ''BAD'', ''MSFT'']"
    by (rule conjunct1)
  then have p1: "\<exists>es. logs (fetch_historical_data ex_lib ex_engine ex_source [''AAPL'', ''BAD'', ''MSFT''] ex_world) =
       (INFO, ''Starting historical data fetch for %d tickers...'', [ANat 3]) # es
       \<and> map entry_ticker es = [Some ''AAPL'', Some ''BAD'', Some ''MSFT'']"
    by (simp add: w eval_nat_numeral)
  have f: "process_ticker ex_lib ex_engine ex_source (tables (for_tickers ex_lib ex_engine ex_source [''AAPL''] ex_world)) ''BAD''
            = Inl (Exn ''HTTPError'' ''404'',
                   [''AAPL'' \<mapsto> [(738887, [(''Close'', Num 185)]), (738888, [(''Close'', Num 184)]), (738889, [(''Close'', Num 181)])]])"
    by (simp add: ex_defs run_defs)
  from b have "\<forall>pre X post e tb'.
        [''AAPL'', ''BAD'', ''MSFT''] = pre @ X # post \<and> process_ticker ex_lib ex_engine ex_source (tables (for_tickers ex_lib ex_engine ex_source pre ex_world)) X = Inl (e, tb') \<longrightarrow>
          (ERROR, ''[%s] Failed to process ticker: %s'', [AStr X, AExn e]) \<in> set (logs (fetch_historical_data ex_lib ex_engine ex_source [''AAPL'', ''BAD'', ''MSFT''] ex_world))"
    by blast
  from this [rule_format, of "[''AAPL'']" "''BAD''" "[''MSFT'']" "Exn ''HTTPError'' ''404''"] f
  have p2: "(ERROR, ''[%s] Failed to process ticker: %s'', [AStr ''BAD'', AExn (Exn ''HTTPError'' ''404'')])
        \<in> set (logs (fetch_historical_data ex_lib ex_engine ex_source [''AAPL'', ''BAD'', ''MSFT''] ex_world))"
    by simp
  have s: "start_date_for ex_lib ex_engine (tables (for_tickers ex_lib ex_engine ex_source [''AAPL'', ''BAD''] ex_world)) ''MSFT'' = Inr epoch_floor"
    by (simp add: ex_defs run_defs)
  have x: "ex_source ''MSFT'' epoch_floor = Inr \<lparr>index = [(738887, 0)], columns = [(''Close'', [Num 370])]\<rparr>"
    by (simp add: ex_defs run_defs)
  have pr: "prepare_rows ex_lib \<lparr>index = [(738887, 0)], columns = [(''Close'', [Num 370])]\<rparr> = Inr [(738887, [(''Close'', Num 370)])]"
    by (simp add: ex_defs run_defs)
  from b have "\<forall>pre X post d df new.
        [''AAPL'', ''BAD'', ''MSFT''] = pre @ X # post \<and> start_date_for ex_lib ex_engine (tables (for_tickers ex_lib ex_engine ex_source pre ex_world)) X = Inr d \<and>
        ex_source X d = Inr df \<and> \<not> empty_frame df \<and> prepare_rows ex_lib df = Inr new \<and> fault ex_engine X ToSql = None \<longrightarrow>
          (\<exists>before after. tables (fetch_historical_data ex_lib ex_engine ex_source [''AAPL'', ''BAD'', ''MSFT''] ex_world) (table_name_of X) = Some (before @ new @ after))"
    by blast
  from this [rule_format, of "[''AAPL'', ''BAD'']" "''MSFT''" "[]" epoch_floor
      "\<lparr>index = [(738887, 0)], columns = [(''Close'', [Num 370])]\<rparr>" "[(738887, [(''Close'', Num 370)])]"] s x pr
  have p3: "\<exists>before after.
        tables (fetch_historical_data ex_lib ex_engine ex_source [''AAPL'', ''BAD'', ''MSFT''] ex_world) ''MSFT''
          = Some (before @ [(738887, [(''Close'', Num 370)])] @ after)"
    by (simp add: empty_frame_def ex_engine_def table_name_of_def replace_char_def)
  from p1 p2 p3 show ?thesis by blast
qed

theorem interrupt_ends_the_run_counterexample:
  "ex_interrupted_source ''BAD'' 711858 = Inl (Instance [''KeyboardInterrupt'', ''BaseException''] ''interrupted'')
   \<and> logs (fetch_historical_data ex_lib ex_engine ex_interrupted_source [''AAPL'', ''BAD'', ''MSFT''] ex_world) =
       [(INFO, ''Starting historical data fetch for %d tickers...'', [ANat 3]),
        (INFO, ''[%s] Saved/Appended %d records to table `%s`.'', [AStr ''AAPL'', ANat 3, AStr ''AAPL''])]
   \<and> tables (fetch_historical_data ex_lib ex_engine ex_interrupted_source [''AAPL'', ''BAD'', ''MSFT''] ex_world) ''MSFT'' = None
   \<and> escaped (fetch_historical_data ex_lib ex_engine ex_interrupted_source [''AAPL'', ''BAD'', ''MSFT''] ex_world)
       = Some (Instance [''KeyboardInterrupt'', ''BaseException''] ''interrupted'')"
  by (simp add: ex_interrupted_source_def ex_defs run_defs)

text \<open>
  Claim C4 (fetch window). When connecting, the table check and the query do not raise:
  without a table the window starts at the floor 1950-01-01; with a table that has no row,
  so that \<open>MAX(Date)\<close> is NULL, it starts at the floor too; otherwise it starts one day
  after the maximum stored Date, provided the driver reads that date back and the next
  day exists (the maximum is before \<open>date.max\<close>).
\<close>

theorem fetch_window_start:
  assumes "fault eng ticker Connect = None" "fault eng ticker HasTable = None"
    "fault eng ticker SelectMax = None"
  shows "(tb (table_name_of ticker) = None \<longrightarrow> start_date_for L eng tb ticker = Inr epoch_floor)
       \<and> (tb (table_name_of ticker) = Some [] \<longrightarrow> start_date_for L eng tb ticker = Inr epoch_floor)
       \<and> (\<forall>rows m. tb (table_name_of ticker) = Some rows \<and> rows \<noteq> [] \<and> m = Max (set (map fst rows))
              \<and> reads_back L eng m \<and> m < date_max \<longrightarrow>
            start_date_for L eng tb ticker = Inr (m + 1))"
  using assms
  by (auto simp: start_date_for_def Let_def select_max_date_def next_start_date_def reads_back_def
      add_one_day_def split: scalar.splits)

theorem fetch_window_start_witness:
  "start_date_for ex_lib ex_engine Map.empty ''AAPL'' = Inr (ymd2ord 1950 1 1)
   \<and> start_date_for ex_lib ex_engine [''AAPL'' \<mapsto> []] ''AAPL'' = Inr (ymd2ord 1950 1 1)
   \<and> start_date_for ex_lib ex_engine
        [''AAPL'' \<mapsto> [(738887, []), (738889, []), (738888, [])]] ''AAPL'' = Inr 738890"
proof -
  have f: "fault ex_engine ''AAPL'' Connect = None" "fault ex_engine ''AAPL'' HasTable = None"
    "fault ex_engine ''AAPL'' SelectMax = None" by (simp_all add: ex_engine_def)
  have n: "table_name_of ''AAPL'' = ''AAPL''" by (simp add: table_name_of_def replace_char_def)
  have r: "reads_back ex_lib ex_engine 738889" by (simp add: reads_back_def ex_engine_def)
  have m: "(738889 :: int) = Max (set (map fst [(738887 :: int, [] :: (string \<times> cell) list), (738889, []), (738888, [])]))"
    by simp
  have lt: "(738889 :: int) < date_max" by (simp add: date_max_value)
  note t = fetch_window_start [OF f, where L = ex_lib]
  have "Map.empty (table_name_of ''AAPL'') = (None :: row list option)" by simp
  with t [of Map.empty] have a: "start_date_for ex_lib ex_engine Map.empty ''AAPL'' = Inr epoch_floor"
    by blast
  have "[''AAPL'' \<mapsto> []] (table_name_of ''AAPL'') = Some ([] :: row list)" by (simp add: n)
  with t [of "[''AAPL'' \<mapsto> []]"]
  have b: "start_date_for ex_lib ex_engine [''AAPL'' \<mapsto> []] ''AAPL'' = Inr epoch_floor"
    by blast
  have "[''AAPL'' \<mapsto> [(738887, []), (738889, []), (738888, [])]] (table_name_of ''AAPL'')
          = Some [(738887 :: int, [] :: (string \<times> cell) list), (738889, []), (738888, [])]"
    by (simp add: n)
  with t [of "[''AAPL'' \<mapsto> [(738887, []), (738889, []), (738888, [])]]"] r m lt
  have "start_date_for ex_lib ex_engine
        [''AAPL'' \<mapsto> [(738887, []), (738889, []), (738888, [])]] ''AAPL'' = Inr (738889 + 1)"
    by blast
  then have c: "start_date_for ex_lib ex_engine
        [''AAPL'' \<mapsto> [(738887, []), (738889, []), (738888, [])]] ''AAPL'' = Inr 738890"
    by simp
  from a b c show ?thesis unfolding epoch_floor_def by blast
qed

text \<open>
  The window that is computed, when one is: it starts at the floor for a table that is
  absent or has no row, and the day after the maximum stored Date otherwise. The window
  of a ticker depends on its own table only, and a turn of the loop touches no other table.
\<close>

lemma start_date_no_rows:
  assumes "start_date_for L eng tb t = Inr d"
    "tb (table_name_of t) = None \<or> tb (table_name_of t) = Some []"
  shows "d = epoch_floor"
  using assms
  by (auto simp: start_date_for_def Let_def select_max_date_def next_start_date_def
      split: option.splits)

lemma start_date_after_max:
  assumes "start_date_for L eng tb t = Inr d" "tb (table_name_of t) = Some rows" "rows \<noteq> []"
    "reads_back L eng (Max (set (map fst rows)))"
  shows "d = Max (set (map fst rows)) + 1"
  using assms
  by (auto simp: start_date_for_def Let_def select_max_date_def next_start_date_def reads_back_def
      add_one_day_def split: option.splits scalar.splits if_splits)

lemma process_ticker_other_tables:
  assumes "process_ticker L eng src tb t = Inr (tb', lg)" "n \<noteq> table_name_of t"
  shows "tb' n = tb n"
  using assms(1)
  by (cases rule: process_ticker_cases) (use assms(2) in \<open>simp_all add: appended_def\<close>)

lemma process_ticker_raised_other_tables:
  assumes "process_ticker L eng src tb t = Inl (e, tb')" "n \<noteq> table_name_of t"
  shows "tb' n = tb n"
  using assms(1)
  by (cases rule: process_ticker_raised)
    (use assms(2) in \<open>simp_all add: appended_def split: option.splits\<close>)

lemma attempt_other_tables:
  assumes "n \<noteq> table_name_of t"
  shows "tables (attempt L eng src w t) n = tables w n"
proof (cases "process_ticker L eng src (tables w) t")
  case (Inl r)
  obtain e tb where r: "r = (e, tb)" by (cases r)
  from process_ticker_raised_other_tables [OF Inl [unfolded r] assms]
  show ?thesis by (simp add: attempt_tables Inl r)
next
  case (Inr r)
  obtain tb lg where r: "r = (tb, lg)" by (cases r)
  from process_ticker_other_tables [OF Inr [unfolded r] assms]
  show ?thesis by (simp add: attempt_tables Inr r)
qed

text \<open>
  A turn of the loop for which the source has nothing after the stored maximum leaves the
  tables as they are.
\<close>

lemma attempt_nothing_new:
  assumes "\<forall>rows. tables w (table_name_of t) = Some rows \<and> rows \<noteq> [] \<longrightarrow>
             reads_back L eng (Max (set (map fst rows))) \<and>
             (\<exists>df. src t (Max (set (map fst rows)) + 1) = Inr df \<and> empty_frame df)"
    and "tables w (table_name_of t) = None \<or> tables w (table_name_of t) = Some [] \<longrightarrow>
             (\<exists>df. src t epoch_floor = Inr df \<and> empty_frame df)"
  shows "tables (attempt L eng src w t) = tables w"
proof (cases "start_date_for L eng (tables w) t")
  case (Inl e)
  then show ?thesis by (simp add: attempt_tables process_ticker_def)
next
  case (Inr d)
  have "\<exists>df. src t d = Inr df \<and> empty_frame df"
  proof (cases "tables w (table_name_of t) = None \<or> tables w (table_name_of t) = Some []")
    case True
    from start_date_no_rows [OF Inr True] assms(2) True show ?thesis by simp
  next
    case False
    then obtain rows where rows: "tables w (table_name_of t) = Some rows" "rows \<noteq> []" by auto
    with assms(1) have r: "reads_back L eng (Max (set (map fst rows)))"
      and e: "\<exists>df. src t (Max (set (map fst rows)) + 1) = Inr df \<and> empty_frame df"
      by blast+
    from start_date_after_max [OF Inr rows r] e show ?thesis by simp
  qed
  then obtain df where "src t d = Inr df" "empty_frame df" by blast
  from process_ticker_no_data [where src = src, OF Inr this] show ?thesis by (simp add: attempt_tables)
qed

lemma for_tickers_nothing_new:
  assumes "\<forall>t \<in> set ts. table_name_of t = n \<longrightarrow>
             (\<forall>rows. tables w n = Some rows \<and> rows \<noteq> [] \<longrightarrow>
                reads_back L eng (Max (set (map fst rows))) \<and>
                (\<exists>df. src t (Max (set (map fst rows)) + 1) = Inr df \<and> empty_frame df))
           \<and> (tables w n = None \<or> tables w n = Some [] \<longrightarrow> (\<exists>df. src t epoch_floor = Inr df \<and> empty_frame df))"
  shows "tables (for_tickers L eng src ts w) n = tables w n"
  using assms
proof (induction ts arbitrary: w)
  case Nil
  then show ?case by simp
next
  case (Cons t ts)
  show ?case
  proof (cases "escaped w")
    case (Some e)
    then show ?thesis by simp
  next
    case None
    have 1: "tables (attempt L eng src w t) n = tables w n"
    proof (cases "table_name_of t = n")
      case True
      have "tables (attempt L eng src w t) = tables w"
        by (rule attempt_nothing_new) (use Cons.prems True in simp_all)
      then show ?thesis by simp
    next
      case False
      then show ?thesis by (simp add: attempt_other_tables)
    qed
    have "tables (for_tickers L eng src ts (attempt L eng src w t)) n = tables (attempt L eng src w t) n"
      by (rule Cons.IH) (use Cons.prems in \<open>simp add: 1\<close>)
    with 1 None show ?thesis by simp
  qed
qed

text \<open>
  Claim C5 (idempotent incrementality). \<open>w1\<close> is the state a completed run has left and
  \<open>n\<close> the table of an entity. There is no new external data for \<open>n\<close>: for every ticker
  of the list that is stored in \<open>n\<close>, the source returns no rows for the window that
  starts the day after the maximum Date persisted in \<open>n\<close> (a date the driver reads
  back), or from the floor 1950-01-01 if \<open>n\<close> is absent or holds no row. Then a second
  run leaves the table \<open>n\<close> as it is: it appends no row to it.
\<close>

theorem idempotent_second_run:
  assumes "\<forall>t \<in> set ts. table_name_of t = n \<longrightarrow>
             (\<forall>rows. tables w1 n = Some rows \<and> rows \<noteq> [] \<longrightarrow>
                reads_back L eng (Max (set (map fst rows))) \<and>
                (\<exists>df. src2 t (Max (set (map fst rows)) + 1) = Inr df \<and> empty_frame df))
           \<and> (tables w1 n = None \<or> tables w1 n = Some [] \<longrightarrow>
                (\<exists>df. src2 t epoch_floor = Inr df \<and> empty_frame df))"
  shows "tables (fetch_historical_data L eng src2 ts w1) n = tables w1 n"
  unfolding fetch_tables using assms by (rule for_tickers_nothing_new)

theorem idempotent_second_run_witness:
  "tables (fetch_historical_data ex_lib ex_engine ex_source [''AAPL'', ''MSFT'']
             (fetch_historical_data ex_lib ex_engine ex_source [''AAPL'', ''MSFT''] ex_world)) ''AAPL''
     = tables (fetch_historical_data ex_lib ex_engine ex_source [''AAPL'', ''MSFT''] ex_world) ''AAPL''
   \<and> tables (fetch_historical_data ex_lib ex_engine ex_source [''AAPL'', ''MSFT''] ex_world) ''AAPL''
     = Some [(738887, [(''Close'', Num 185)]), (738888, [(''Close'', Num 184)]), (738889, [(''Close'', Num 181)])]
   \<and> Max (set (map fst [(738887 :: int, [(''Close'', Num 185)]), (738888, [(''Close'', Num 184)]), (738889, [(''Close'', Num 181)])])) + 1 = 738890
   \<and> ex_source ''AAPL'' 738890 = Inr no_rows"
proof -
  define w1 where "w1 = fetch_historical_data ex_lib ex_engine ex_source [''AAPL'', ''MSFT''] ex_world"
  have t1: "tables w1 ''AAPL'' =
      Some [(738887, [(''Close'', Num 185)]), (738888, [(''Close'', Num 184)]), (738889, [(''Close'', Num 181)])]"
    unfolding w1_def by (simp add: ex_defs run_defs)
  have m: "Max (set (map fst [(738887 :: int, [(''Close'', Num 185)]), (738888, [(''Close'', Num 184)]), (738889, [(''Close'', Num 181)])])) = 738889"
    by simp
  have r: "reads_back ex_lib ex_engine 738889" by (simp add: reads_back_def ex_engine_def)
  have e: "ex_source ''AAPL'' 738890 = Inr no_rows" "empty_frame no_rows"
    by (simp_all add: ex_source_def no_rows_def empty_frame_def)
  have n: "table_name_of ''MSFT'' \<noteq> ''AAPL''" by (simp add: table_name_of_def replace_char_def)
  have h: "\<forall>t \<in> set [''AAPL'', ''MSFT'']. table_name_of t = ''AAPL'' \<longrightarrow>
             (\<forall>rows. tables w1 ''AAPL'' = Some rows \<and> rows \<noteq> [] \<longrightarrow>
                reads_back ex_lib ex_engine (Max (set (map fst rows))) \<and>
                (\<exists>df. ex_source t (Max (set (map fst rows)) + 1) = Inr df \<and> empty_frame df))
           \<and> (tables w1 ''AAPL'' = None \<or> tables w1 ''AAPL'' = Some [] \<longrightarrow>
                (\<exists>df. ex_source t epoch_floor = Inr df \<and> empty_frame df))"
    using r e n by (auto simp: t1)
  from idempotent_second_run [of "[''AAPL'', ''MSFT'']" "''AAPL''" w1 ex_lib ex_engine ex_source, OF h] t1 m e(1)
  show ?thesis unfolding w1_def by simp
qed

text \<open>
  The rows that are written carry the calendar dates of the frame's timestamps, and a
  column that holds a string which is neither empty nor a number makes the conversion raise.
\<close>

lemma to_numeric_raises:
  "Str s \<in> set cs \<Longrightarrow> s \<noteq> [] \<Longrightarrow> parse_numeric L s = None \<Longrightarrow> \<exists>e. to_numeric L cs = Inl e"
proof (induction cs)
  case Nil
  then show ?case by simp
next
  case (Cons c cs)
  show ?case
  proof (cases "to_numeric_cell L c")
    case (Inl e)
    then show ?thesis by simp
  next
    case (Inr c')
    with Cons.prems have "Str s \<in> set cs" by (auto simp: to_numeric_cell_def)
    from Cons.IH [OF this Cons.prems(2,3)] Inr show ?thesis by auto
  qed
qed

text \<open>
  Claim C7 (row-level coercion). The Date is cut down to the calendar date
  (\<open>prepare_rows_dates\<close>), but \<open>pd.to_numeric\<close> is called with its default
  \<open>errors='raise'\<close>: a batch of two rows whose Open column holds the string n/a in one
  row raises ValueError, the bulkhead logs the failure, and no row of the batch is written,
  where the claim has the value become null and the batch persist.
\<close>

theorem non_numeric_value_fails_batch:
  "prepare_rows ex_lib \<lparr>index = [(738887, 0), (738888, 0)],
          columns = [(''Open'', [Num 185, Str ''n/a'']), (''Close'', [Num 184, Num 185])]\<rparr>
     = Inl (Exn ''ValueError'' ''Unable to parse string n/a'')
   \<and> tables (fetch_historical_data ex_lib ex_engine ex_bad_source [''AAPL''] ex_world) ''AAPL'' = None
   \<and> logs (fetch_historical_data ex_lib ex_engine ex_bad_source [''AAPL''] ex_world) =
       [(INFO, ''Starting historical data fetch for %d tickers...'', [ANat 1]),
        (ERROR, ''[%s] Failed to process ticker: %s'', [AStr ''AAPL'', AExn (Exn ''ValueError'' ''Unable to parse string n/a'')])]"
  by (simp add: ex_defs ex_bad_source_def run_defs)

section \<open>Properties of the table names\<close>

text \<open>
  When the external source returns only rows dated at or after the requested start, with
  pairwise distinct dates, every batch lies after the maximum Date of the table it is
  appended to, so the Dates of a table stay pairwise distinct, also when \<open>to_sql\<close>
  raises after it has written a part of the batch.
\<close>

lemma append_after_max_distinct:
  fixes old new :: "row list"
  assumes "distinct (map fst old)" "distinct (map fst new)"
    and "old \<noteq> [] \<Longrightarrow> \<forall>x \<in> set (map fst new). Max (set (map fst old)) + 1 \<le> x"
  shows "distinct (map fst (old @ new))"
proof (cases "old = []")
  case True
  with assms(2) show ?thesis by simp
next
  case False
  have "set (map fst old) \<inter> set (map fst new) = {}"
  proof (rule ccontr)
    assume "set (map fst old) \<inter> set (map fst new) \<noteq> {}"
    then obtain x where x: "x \<in> set (map fst old)" "x \<in> set (map fst new)" by blast
    from x(1) have "x \<le> Max (set (map fst old))" by (intro Max_ge) simp_all
    moreover from assms(3) [OF False] x(2) have "Max (set (map fst old)) + 1 \<le> x" by blast
    ultimately show False by simp
  qed
  with assms(1,2) show ?thesis by simp
qed

lemma appended_keeps_dates_distinct:
  assumes inv: "\<forall>n rows. tb n = Some rows \<longrightarrow> distinct (map fst rows)"
    and new: "distinct (map fst new)"
    and after: "\<And>old. tb name = Some old \<Longrightarrow> old \<noteq> [] \<Longrightarrow> \<forall>x \<in> set (map fst new). Max (set (map fst old)) + 1 \<le> x"
  shows "\<forall>n rows. appended tb name new n = Some rows \<longrightarrow> distinct (map fst rows)"
proof -
  define old where "old = (case tb name of None \<Rightarrow> [] | Some old \<Rightarrow> old)"
  have dold: "distinct (map fst old)" using inv by (auto simp: old_def split: option.splits)
  have "\<forall>x \<in> set (map fst new). Max (set (map fst old)) + 1 \<le> x" if "old \<noteq> []"
  proof -
    from that have "tb name = Some old" by (auto simp: old_def split: option.splits)
    from after [OF this that] show ?thesis .
  qed
  with dold new have "distinct (map fst (old @ new))" by (rule append_after_max_distinct)
  then show ?thesis using inv by (simp add: appended_def old_def)
qed

lemma attempt_keeps_dates_distinct:
  assumes src: "\<forall>t d df. src t d = Inr df \<longrightarrow> distinct (map fst (index df)) \<and> (\<forall>x \<in> set (map fst (index df)). d \<le> x)"
    and rb: "\<forall>d. reads_back L eng d"
    and inv: "\<forall>n rows. tables w n = Some rows \<longrightarrow> distinct (map fst rows)"
  shows "\<forall>n rows. tables (attempt L eng src w t) n = Some rows \<longrightarrow> distinct (map fst rows)"
proof -
  have batch: "\<forall>n rows. appended (tables w) (table_name_of t) (take k new) n = Some rows \<longrightarrow> distinct (map fst rows)"
    if sd: "start_date_for L eng (tables w) t = Inr d" and sx: "src t d = Inr df"
      and pr: "prepare_rows L df = Inr new"
    for d df new k
  proof (rule appended_keeps_dates_distinct [OF inv])
    have dnew: "map fst new = map fst (index df)" using pr by (rule prepare_rows_dates)
    from src sx have w: "distinct (map fst (index df))" "\<forall>x \<in> set (map fst (index df)). d \<le> x"
      by blast+
    have tk: "map fst (take k new) = take k (map fst (index df))"
      unfolding take_map [symmetric] dnew ..
    from w(1) show "distinct (map fst (take k new))" unfolding tk by (rule distinct_take)
    fix old assume old: "tables w (table_name_of t) = Some old" "old \<noteq> []"
    from start_date_after_max [OF sd old] rb have "d = Max (set (map fst old)) + 1" by blast
    with w(2) dnew have "\<forall>x \<in> set (map fst new). Max (set (map fst old)) + 1 \<le> x" by simp
    moreover have "set (map fst (take k new)) \<subseteq> set (map fst new)"
      unfolding tk dnew by (rule set_take_subset)
    ultimately show "\<forall>x \<in> set (map fst (take k new)). Max (set (map fst old)) + 1 \<le> x" by blast
  qed
  show ?thesis
  proof (cases "process_ticker L eng src (tables w) t")
    case (Inl r)
    obtain e tb where r: "r = (e, tb)" by (cases r)
    have att: "tables (attempt L eng src w t) = tb" by (simp add: attempt_tables Inl r)
    from Inl [unfolded r] show ?thesis
    proof (cases rule: process_ticker_raised)
      case (to_sql d df new)
      show ?thesis
      proof (cases "written eng t")
        case None
        with to_sql(6) att inv show ?thesis by simp
      next
        case (Some k)
        with to_sql(6) have "tb = appended (tables w) (table_name_of t) (take k new)" by simp
        with batch [OF to_sql(1,2,4), of k] att show ?thesis by simp
      qed
    qed (use att inv in simp_all)
  next
    case (Inr r)
    obtain tb lg where r: "r = (tb, lg)" by (cases r)
    have att: "tables (attempt L eng src w t) = tb" by (simp add: attempt_tables Inr r)
    from Inr [unfolded r] show ?thesis
    proof (cases rule: process_ticker_cases)
      case (no_data d df)
      then show ?thesis using att inv by simp
    next
      case (saved d df new)
      from batch [OF saved(1,2,4), of "length new"] saved(6) att show ?thesis by simp
    qed
  qed
qed

lemma for_tickers_keeps_dates_distinct:
  assumes src: "\<forall>t d df. src t d = Inr df \<longrightarrow> distinct (map fst (index df)) \<and> (\<forall>x \<in> set (map fst (index df)). d \<le> x)"
    and rb: "\<forall>d. reads_back L eng d"
    and inv: "\<forall>n rows. tables w n = Some rows \<longrightarrow> distinct (map fst rows)"
  shows "\<forall>n rows. tables (for_tickers L eng src ts w) n = Some rows \<longrightarrow> distinct (map fst rows)"
  using inv
proof (induction ts arbitrary: w)
  case Nil
  then show ?case by simp
next
  case (Cons t ts)
  show ?case
  proof (cases "escaped w")
    case (Some e)
    with Cons.prems show ?thesis by simp
  next
    case None
    from attempt_keeps_dates_distinct [OF src rb Cons.prems]
    have "\<forall>n rows. tables (attempt L eng src w t) n = Some rows \<longrightarrow> distinct (map fst rows)" .
    from Cons.IH [OF this] None show ?thesis by simp
  qed
qed

lemma same_table_same_window:
  assumes "table_name_of t1 = table_name_of t2" "\<forall>op. fault eng t1 op = fault eng t2 op"
  shows "start_date_for L eng tb t1 = start_date_for L eng tb t2"
proof -
  from assms(2) have f: "fault eng t1 = fault eng t2" by (intro ext) simp
  show ?thesis unfolding start_date_for_def assms(1) f ..
qed

text \<open>
  Claim C10 (table names are not injective). BRK.B and BRK-B are distinct valid
  identifiers with the same table name. Two identifiers with the same table name, for
  which the database calls behave alike, get the same fetch window from the same tables,
  and processing an identifier, whether it ends normally or raises, changes no table but
  the one it is named after: the two entities read one watermark and append into one
  table. The Dates of every table nevertheless stay pairwise distinct whenever the source
  returns pairwise distinct dates at or after the requested start and the driver reads
  stored dates back. The run on BRK-B and BRK.B from an empty database shows it: one
  table, three rows, three different dates.
\<close>

theorem shared_table_after_sanitization:
  "table_name_of ''BRK.B'' = table_name_of ''BRK-B'' \<and> ''BRK.B'' \<noteq> ''BRK-B''
   \<and> valid_ticker ''BRK.B'' \<and> valid_ticker ''BRK-B''
   \<and> (\<forall>t1 t2. table_name_of t1 = table_name_of t2 \<and> (\<forall>op. fault eng t1 op = fault eng t2 op) \<longrightarrow>
         start_date_for L eng tb t1 = start_date_for L eng tb t2)
   \<and> (\<forall>t tb' lg n. process_ticker L eng src tb t = Inr (tb', lg) \<and> n \<noteq> table_name_of t \<longrightarrow> tb' n = tb n)
   \<and> (\<forall>t e tb' n. process_ticker L eng src tb t = Inl (e, tb') \<and> n \<noteq> table_name_of t \<longrightarrow> tb' n = tb n)
   \<and> ((\<forall>t d df. src t d = Inr df \<longrightarrow> distinct (map fst (index df)) \<and> (\<forall>x \<in> set (map fst (index df)). d \<le> x))
        \<and> (\<forall>d. reads_back L eng d)
        \<and> (\<forall>n rows. tables w n = Some rows \<longrightarrow> distinct (map fst rows))
       \<longrightarrow> (\<forall>n rows. tables (fetch_historical_data L eng src ts w) n = Some rows \<longrightarrow> distinct (map fst rows)))"
proof -
  have 1: "table_name_of ''BRK.B'' = table_name_of ''BRK-B''" "''BRK.B'' \<noteq> ''BRK-B''"
    by (simp_all add: table_name_of_def replace_char_def)
  have 2: "valid_ticker ''BRK.B''" "valid_ticker ''BRK-B''"
    by (simp_all add: valid_ticker_def re_search_ticker_def ticker_char_def)
  have 3: "\<forall>t1 t2. table_name_of t1 = table_name_of t2 \<and> (\<forall>op. fault eng t1 op = fault eng t2 op) \<longrightarrow>
         start_date_for L eng tb t1 = start_date_for L eng tb t2"
    using same_table_same_window by blast
  have 4: "\<forall>t tb' lg n. process_ticker L eng src tb t = Inr (tb', lg) \<and> n \<noteq> table_name_of t \<longrightarrow> tb' n = tb n"
    using process_ticker_other_tables by blast
  have 5: "\<forall>t e tb' n. process_ticker L eng src tb t = Inl (e, tb') \<and> n \<noteq> table_name_of t \<longrightarrow> tb' n = tb n"
    using process_ticker_raised_other_tables by blast
  have 6: "(\<forall>t d df. src t d = Inr df \<longrightarrow> distinct (map fst (index df)) \<and> (\<forall>x \<in> set (map fst (index df)). d \<le> x))
        \<and> (\<forall>d. reads_back L eng d)
        \<and> (\<forall>n rows. tables w n = Some rows \<longrightarrow> distinct (map fst rows))
       \<longrightarrow> (\<forall>n rows. tables (fetch_historical_data L eng src ts w) n = Some rows \<longrightarrow> distinct (map fst rows))"
    unfolding fetch_tables using for_tickers_keeps_dates_distinct [of src L eng w ts] by blast
  from 1 2 3 4 5 6 show ?thesis by blast
qed

theorem shared_table_after_sanitization_witness:
  "start_date_for ex_lib ex_engine [''BRK_B'' \<mapsto> [(738887, [])]] ''BRK.B'' = Inr 738888
   \<and> start_date_for ex_lib ex_engine [''BRK_B'' \<mapsto> [(738887, [])]] ''BRK-B'' = Inr 738888
   \<and> (\<exists>tb' lg. process_ticker ex_lib ex_engine ex_source Map.empty ''BRK-B'' = Inr (tb', lg) \<and> tb' ''AAPL'' = None)
   \<and> (\<exists>e tb'. process_ticker ex_lib ex_lossy_engine ex_source Map.empty ''BRK-B'' = Inl (e, tb')
        \<and> tb' ''BRK_B'' = Some [(738887, [(''Close'', Num 362)])] \<and> tb' ''AAPL'' = None)
   \<and> (\<exists>rows. tables (fetch_historical_data ex_lib ex_engine ex_source [''BRK-B'', ''BRK.B''] ex_world) ''BRK_B'' = Some rows
        \<and> length rows = 3 \<and> distinct (map fst rows))"
proof -
  note t = shared_table_after_sanitization [of ex_engine ex_lib _ ex_source ex_world "[''BRK-B'', ''BRK.B'']"]
  have same: "table_name_of ''BRK.B'' = table_name_of ''BRK-B''" using t [of Map.empty] by blast
  have faults: "\<forall>op. fault ex_engine ''BRK.B'' op = fault ex_engine ''BRK-B'' op" by (simp add: ex_engine_def)
  from t [of "[''BRK_B'' \<mapsto> [(738887, [])]]"] same faults
  have eq: "start_date_for ex_lib ex_engine [''BRK_B'' \<mapsto> [(738887, [])]] ''BRK.B''
          = start_date_for ex_lib ex_engine [''BRK_B'' \<mapsto> [(738887, [])]] ''BRK-B''"
    by blast
  have v: "start_date_for ex_lib ex_engine [''BRK_B'' \<mapsto> [(738887, [])]] ''BRK-B'' = Inr 738888"
    by (simp add: ex_defs run_defs)
  have p: "process_ticker ex_lib ex_engine ex_source Map.empty ''BRK-B''
      = Inr ([''BRK_B'' \<mapsto> [(738887, [(''Close'', Num 362)]), (738888, [(''Close'', Num 363)])]],
             [(INFO, ''[%s] Saved/Appended %d records to table `%s`.'', [AStr ''BRK-B'', ANat 2, AStr ''BRK_B''])])"
    by (simp add: ex_defs run_defs)
  have ne: "''AAPL'' \<noteq> table_name_of ''BRK-B''" by (simp add: table_name_of_def replace_char_def)
  from t [of Map.empty] p ne
  have other: "[''BRK_B'' \<mapsto> [(738887, [(''Close'', Num 362)]), (738888, [(''Close'', Num 363)])]] ''AAPL''
      = (Map.empty :: tables) ''AAPL''"
    by blast
  have q: "process_ticker ex_lib ex_lossy_engine ex_source Map.empty ''BRK-B''
      = Inl (Exn ''OperationalError'' ''connection lost'', [''BRK_B'' \<mapsto> [(738887, [(''Close'', Num 362)])]])"
    by (simp add: ex_defs ex_lossy_engine_def run_defs)
  from shared_table_after_sanitization [of ex_lossy_engine ex_lib Map.empty ex_source ex_world "[]"] q ne
  have lossy: "[''BRK_B'' \<mapsto> [(738887, [(''Close'', Num 362)])]] ''AAPL'' = (Map.empty :: tables) ''AAPL''"
    by blast
  have src: "\<forall>t d df. ex_source t d = Inr df \<longrightarrow>
      distinct (map fst (index df)) \<and> (\<forall>x \<in> set (map fst (index df)). d \<le> x)"
    by (auto simp: ex_source_def no_rows_def split: if_splits)
  have rb: "\<forall>d. reads_back ex_lib ex_engine d" by (simp add: reads_back_def ex_engine_def)
  have w0: "\<forall>n rows. tables ex_world n = Some rows \<longrightarrow> distinct (map fst rows)" by (simp add: ex_world_def)
  from t [of Map.empty] src rb w0
  have d: "\<forall>n rows. tables (fetch_historical_data ex_lib ex_engine ex_source [''BRK-B'', ''BRK.B''] ex_world) n = Some rows
      \<longrightarrow> distinct (map fst rows)"
    by blast
  have run: "tables (fetch_historical_data ex_lib ex_engine ex_source [''BRK-B'', ''BRK.B''] ex_world) ''BRK_B''
     = Some [(738887, [(''Close'', Num 362)]), (738888, [(''Close'', Num 363)]), (738889, [(''Close'', Num 361)])]"
    by (simp add: ex_defs run_defs)
  from d [rule_format, OF run] run
  have last: "\<exists>rows. tables (fetch_historical_data ex_lib ex_engine ex_source [''BRK-B'', ''BRK.B''] ex_world) ''BRK_B'' = Some rows
        \<and> length rows = 3 \<and> distinct (map fst rows)"
    by simp
  from eq v p other q lossy last show ?thesis by auto
qed

theorem shared_table_dates_stay_distinct:
  "tables (fetch_historical_data ex_lib ex_engine ex_source [''BRK-B'', ''BRK.B''] ex_world) ''BRK_B''
     = Some [(738887, [(''Close'', Num 362)]), (738888, [(''Close'', Num 363)]), (738889, [(''Close'', Num 361)])]
   \<and> distinct [738887, 738888, 738889 :: int]"
  by (simp add: ex_defs run_defs)

section \<open>Properties of the discovery sources\<close>

text \<open>When the sources raise instances of \<open>Exception\<close> only, both handlers catch and the function returns.\<close>

lemma index_block_caught:
  assumes "\<forall>e. tickers_sp500 si = Inl e \<or> tickers_dow si = Inl e \<or> tickers_nasdaq si = Inl e \<longrightarrow> isinstance e ''Exception''"
  shows "snd (snd (fetch_index_tickers si)) = None"
  using assms by (auto simp: fetch_index_tickers_def index_handler_def split: sum.splits)

lemma etf_block_caught:
  assumes "\<forall>e. tickers_etfs si = Inl e \<longrightarrow> isinstance e ''Exception''"
  shows "snd (snd (fetch_etf_tickers si)) = None"
  using assms by (auto simp: fetch_etf_tickers_def split: sum.splits)

lemma fetch_all_tickers_returns:
  assumes "snd (snd (fetch_index_tickers si)) = None" "snd (snd (fetch_etf_tickers si)) = None"
  shows "fetch_all_tickers si =
         (filter valid_ticker (sort (remdups (fst (fetch_index_tickers si) @ fst (fetch_etf_tickers si)))),
          (INFO, ''Fetching list of all tickers from yahoo_fin...'', []) # fst (snd (fetch_index_tickers si))
            @ fst (snd (fetch_etf_tickers si))
            @ [(INFO, ''Found %d unique, valid tickers for DB.'',
                [ANat (length (filter valid_ticker (sort (remdups (fst (fetch_index_tickers si) @ fst (fetch_etf_tickers si))))))])],
          None)"
  using assms by (cases si rule: fetch_all_tickers_cases) simp_all

lemma index_block_after_sp500:
  "tickers_sp500 si = Inl e \<Longrightarrow>
     fetch_index_tickers (si\<lparr>tickers_dow := x, tickers_nasdaq := y\<rparr>) = fetch_index_tickers si"
  by (simp add: fetch_index_tickers_def)

lemma index_block_after_dow:
  "tickers_dow si = Inl e \<Longrightarrow> fetch_index_tickers (si\<lparr>tickers_nasdaq := y\<rparr>) = fetch_index_tickers si"
  by (simp add: fetch_index_tickers_def split: sum.splits)

lemma etf_block_index_update:
  "fetch_etf_tickers (si\<lparr>tickers_dow := x\<rparr>) = fetch_etf_tickers si"
  "fetch_etf_tickers (si\<lparr>tickers_nasdaq := y\<rparr>) = fetch_etf_tickers si"
  by (simp_all add: fetch_etf_tickers_def)

text \<open>
  Claim C6 (discovery-source fault tolerance), for sources that raise instances of
  \<open>Exception\<close>, the class both handlers name. The three index sources share one
  \<open>try\<close> block and the ETF source has its own. The function returns. Tickers of a
  source that returned are collected when every source before it in its block returned
  too; a failure in the index block skips the sources after it in that block (the result
  does not depend on them) and is logged; the ETF tickers are collected whatever the index
  block does, and an ETF failure is logged, as a warning for an AttributeError and as an
  error otherwise. With S&P 500 down, the Dow and NASDAQ listings are not collected
  although they would return.
\<close>

theorem discovery_fault_groups:
  assumes "\<forall>e. tickers_sp500 si = Inl e \<or> tickers_dow si = Inl e \<or> tickers_nasdaq si = Inl e
              \<or> tickers_etfs si = Inl e \<longrightarrow> isinstance e ''Exception''"
  shows "snd (snd (fetch_all_tickers si)) = None
   \<and> (\<forall>d. tickers_etfs si = Inr d \<longrightarrow> (\<forall>t \<in> set d. valid_ticker t \<longrightarrow> t \<in> set (fst (fetch_all_tickers si))))
   \<and> (\<forall>a. tickers_sp500 si = Inr a \<longrightarrow> (\<forall>t \<in> set a. valid_ticker t \<longrightarrow> t \<in> set (fst (fetch_all_tickers si))))
   \<and> (\<forall>a b. tickers_sp500 si = Inr a \<and> tickers_dow si = Inr b \<longrightarrow>
         (\<forall>t \<in> set b. valid_ticker t \<longrightarrow> t \<in> set (fst (fetch_all_tickers si))))
   \<and> (\<forall>a b c. tickers_sp500 si = Inr a \<and> tickers_dow si = Inr b \<and> tickers_nasdaq si = Inr c \<longrightarrow>
         (\<forall>t \<in> set c. valid_ticker t \<longrightarrow> t \<in> set (fst (fetch_all_tickers si))))
   \<and> (\<forall>e x y. tickers_sp500 si = Inl e \<longrightarrow>
         fetch_all_tickers (si\<lparr>tickers_dow := x, tickers_nasdaq := y\<rparr>) = fetch_all_tickers si)
   \<and> (\<forall>e y. tickers_dow si = Inl e \<longrightarrow>
         fetch_all_tickers (si\<lparr>tickers_nasdaq := y\<rparr>) = fetch_all_tickers si)
   \<and> (\<forall>e. tickers_sp500 si = Inl e
            \<or> (\<exists>a. tickers_sp500 si = Inr a \<and> tickers_dow si = Inl e)
            \<or> (\<exists>a b. tickers_sp500 si = Inr a \<and> tickers_dow si = Inr b \<and> tickers_nasdaq si = Inl e) \<longrightarrow>
         (ERROR, ''Failed to fetch tickers for S&P 500, Dow, or NASDAQ: %s'', [AExn e]) \<in> set (fst (snd (fetch_all_tickers si))))
   \<and> (\<forall>e. tickers_etfs si = Inl e \<longrightarrow>
         (if isinstance e ''AttributeError''
          then (WARNING, ''si.tickers_etfs() is unavailable or deprecated, skipping ETFs.'', [])
          else (ERROR, ''Failed to fetch ETF tickers: %s'', [AExn e])) \<in> set (fst (snd (fetch_all_tickers si))))"
proof -
  have ic: "snd (snd (fetch_index_tickers si)) = None"
    by (rule index_block_caught) (use assms in blast)
  have ec: "snd (snd (fetch_etf_tickers si)) = None"
    by (rule etf_block_caught) (use assms in blast)
  note eq = fetch_all_tickers_returns [OF ic ec]
  have exc: "isinstance e ''Exception''" if "tickers_sp500 si = Inl e \<or> tickers_dow si = Inl e \<or> tickers_nasdaq si = Inl e
              \<or> tickers_etfs si = Inl e" for e
    using assms that by blast
  have log_eq: "fst (snd (fetch_all_tickers si)) =
      (INFO, ''Fetching list of all tickers from yahoo_fin...'', []) # fst (snd (fetch_index_tickers si))
        @ fst (snd (fetch_etf_tickers si))
        @ [(INFO, ''Found %d unique, valid tickers for DB.'', [ANat (length (fst (fetch_all_tickers si)))])]"
    by (simp add: eq)
  have mem: "t \<in> set (fst (fetch_all_tickers si)) \<longleftrightarrow>
      valid_ticker t \<and> (t \<in> set (fst (fetch_index_tickers si)) \<or> t \<in> set (fst (fetch_etf_tickers si)))" for t
    by (auto simp: eq)
  have 0: "snd (snd (fetch_all_tickers si)) = None" by (simp add: eq)
  have 1: "\<forall>d. tickers_etfs si = Inr d \<longrightarrow> (\<forall>t \<in> set d. valid_ticker t \<longrightarrow> t \<in> set (fst (fetch_all_tickers si)))"
    by (simp add: mem fetch_etf_tickers_def)
  have 2: "\<forall>a. tickers_sp500 si = Inr a \<longrightarrow> (\<forall>t \<in> set a. valid_ticker t \<longrightarrow> t \<in> set (fst (fetch_all_tickers si)))"
    by (auto simp: mem fetch_index_tickers_def index_handler_def split: sum.splits)
  have 3: "\<forall>a b. tickers_sp500 si = Inr a \<and> tickers_dow si = Inr b \<longrightarrow>
         (\<forall>t \<in> set b. valid_ticker t \<longrightarrow> t \<in> set (fst (fetch_all_tickers si)))"
    by (auto simp: mem fetch_index_tickers_def index_handler_def split: sum.splits)
  have 4: "\<forall>a b c. tickers_sp500 si = Inr a \<and> tickers_dow si = Inr b \<and> tickers_nasdaq si = Inr c \<longrightarrow>
         (\<forall>t \<in> set c. valid_ticker t \<longrightarrow> t \<in> set (fst (fetch_all_tickers si)))"
    by (auto simp: mem fetch_index_tickers_def split: sum.splits)
  have 5: "\<forall>e x y. tickers_sp500 si = Inl e \<longrightarrow>
         fetch_all_tickers (si\<lparr>tickers_dow := x, tickers_nasdaq := y\<rparr>) = fetch_all_tickers si"
    by (simp add: fetch_all_tickers_def index_block_after_sp500 etf_block_index_update)
  have 6: "\<forall>e y. tickers_dow si = Inl e \<longrightarrow>
         fetch_all_tickers (si\<lparr>tickers_nasdaq := y\<rparr>) = fetch_all_tickers si"
    by (simp add: fetch_all_tickers_def index_block_after_dow etf_block_index_update)
  have 7: "\<forall>e. tickers_sp500 si = Inl e
            \<or> (\<exists>a. tickers_sp500 si = Inr a \<and> tickers_dow si = Inl e)
            \<or> (\<exists>a b. tickers_sp500 si = Inr a \<and> tickers_dow si = Inr b \<and> tickers_nasdaq si = Inl e) \<longrightarrow>
         (ERROR, ''Failed to fetch tickers for S&P 500, Dow, or NASDAQ: %s'', [AExn e]) \<in> set (fst (snd (fetch_all_tickers si)))"
    unfolding log_eq using exc by (auto simp: fetch_index_tickers_def index_handler_def)
  have 8: "\<forall>e. tickers_etfs si = Inl e \<longrightarrow>
         (if isinstance e ''AttributeError''
          then (WARNING, ''si.tickers_etfs() is unavailable or deprecated, skipping ETFs.'', [])
          else (ERROR, ''Failed to fetch ETF tickers: %s'', [AExn e])) \<in> set (fst (snd (fetch_all_tickers si)))"
    unfolding log_eq using exc by (auto simp: fetch_etf_tickers_def)
  from 0 1 2 3 4 5 6 7 8 show ?thesis by (intro conjI)
qed

lemmas ticker_defs = fetch_all_tickers_def fetch_index_tickers_def index_handler_def fetch_etf_tickers_def
  isinstance_def Let_def valid_ticker_def re_search_ticker_def ticker_char_def

theorem discovery_fault_groups_witness:
  "snd (snd (fetch_all_tickers ex_dow_down)) = None
   \<and> ''SPY'' \<in> set (fst (fetch_all_tickers ex_dow_down))
   \<and> ''AAPL'' \<in> set (fst (fetch_all_tickers ex_dow_down))
   \<and> fetch_all_tickers (ex_dow_down\<lparr>tickers_nasdaq := Inr [''NVDA'']\<rparr>) = fetch_all_tickers ex_dow_down
   \<and> (ERROR, ''Failed to fetch tickers for S&P 500, Dow, or NASDAQ: %s'', [AExn (Exn ''ConnectionError'' ''unreachable'')])
        \<in> set (fst (snd (fetch_all_tickers ex_dow_down)))
   \<and> ''IBM'' \<in> set (fst (fetch_all_tickers ex_all_up))
   \<and> ''MSFT'' \<in> set (fst (fetch_all_tickers ex_all_up))
   \<and> fetch_all_tickers (ex_sp500_down\<lparr>tickers_dow := Inr [''BA''], tickers_nasdaq := Inr [''NVDA'']\<rparr>)
        = fetch_all_tickers ex_sp500_down
   \<and> (WARNING, ''si.tickers_etfs() is unavailable or deprecated, skipping ETFs.'', [])
        \<in> set (fst (snd (fetch_all_tickers ex_sp500_down)))"
proof -
  have v: "valid_ticker ''SPY''" "valid_ticker ''AAPL''" "valid_ticker ''IBM''" "valid_ticker ''MSFT''"
    by (simp_all add: valid_ticker_def re_search_ticker_def ticker_char_def)
  have ha: "\<forall>e. tickers_sp500 ex_dow_down = Inl e \<or> tickers_dow ex_dow_down = Inl e \<or> tickers_nasdaq ex_dow_down = Inl e
              \<or> tickers_etfs ex_dow_down = Inl e \<longrightarrow> isinstance e ''Exception''"
    by (simp add: ex_dow_down_def isinstance_def)
  note a = discovery_fault_groups [OF ha]
  have a1: "tickers_etfs ex_dow_down = Inr [''SPY'']" "tickers_sp500 ex_dow_down = Inr [''AAPL'']"
    "tickers_dow ex_dow_down = Inl (Exn ''ConnectionError'' ''unreachable'')"
    by (simp_all add: ex_dow_down_def)
  from a have 0: "snd (snd (fetch_all_tickers ex_dow_down)) = None" by (rule conjunct1)
  from a a1(1) v(1) have 1: "''SPY'' \<in> set (fst (fetch_all_tickers ex_dow_down))" by auto
  from a a1(2) v(2) have 2: "''AAPL'' \<in> set (fst (fetch_all_tickers ex_dow_down))" by auto
  from a a1(3) have 3: "fetch_all_tickers (ex_dow_down\<lparr>tickers_nasdaq := Inr [''NVDA'']\<rparr>) = fetch_all_tickers ex_dow_down"
    by blast
  from a a1(2,3) have 4: "(ERROR, ''Failed to fetch tickers for S&P 500, Dow, or NASDAQ: %s'', [AExn (Exn ''ConnectionError'' ''unreachable'')])
        \<in> set (fst (snd (fetch_all_tickers ex_dow_down)))"
    by blast
  have hb: "\<forall>e. tickers_sp500 ex_all_up = Inl e \<or> tickers_dow ex_all_up = Inl e \<or> tickers_nasdaq ex_all_up = Inl e
              \<or> tickers_etfs ex_all_up = Inl e \<longrightarrow> isinstance e ''Exception''"
    by (simp add: ex_all_up_def)
  note b = discovery_fault_groups [OF hb]
  have b1: "tickers_sp500 ex_all_up = Inr [''AAPL'']" "tickers_dow ex_all_up = Inr [''IBM'']"
    "tickers_nasdaq ex_all_up = Inr [''MSFT'']"
    by (simp_all add: ex_all_up_def)
  from b b1 v(3) have 5: "''IBM'' \<in> set (fst (fetch_all_tickers ex_all_up))" by auto
  from b b1 v(4) have 6: "''MSFT'' \<in> set (fst (fetch_all_tickers ex_all_up))" by auto
  have hc: "\<forall>e. tickers_sp500 ex_sp500_down = Inl e \<or> tickers_dow ex_sp500_down = Inl e \<or> tickers_nasdaq ex_sp500_down = Inl e
              \<or> tickers_etfs ex_sp500_down = Inl e \<longrightarrow> isinstance e ''Exception''"
    by (auto simp: ex_sp500_down_def isinstance_def)
  note c = discovery_fault_groups [OF hc]
  have c1: "tickers_sp500 ex_sp500_down = Inl (Exn ''ConnectionError'' ''unreachable'')"
    "tickers_etfs ex_sp500_down = Inl (Instance [''AttributeError'', ''Exception'', ''BaseException''] ''tickers_etfs'')"
    by (simp_all add: ex_sp500_down_def)
  from c c1(1) have 7: "fetch_all_tickers (ex_sp500_down\<lparr>tickers_dow := Inr [''BA''], tickers_nasdaq := Inr [''NVDA'']\<rparr>)
        = fetch_all_tickers ex_sp500_down"
    by blast
  from c have "\<forall>e. tickers_etfs ex_sp500_down = Inl e \<longrightarrow>
         (if isinstance e ''AttributeError''
          then (WARNING, ''si.tickers_etfs() is unavailable or deprecated, skipping ETFs.'', [])
          else (ERROR, ''Failed to fetch ETF tickers: %s'', [AExn e])) \<in> set (fst (snd (fetch_all_tickers ex_sp500_down)))"
    by blast
  from this [rule_format, OF c1(2)]
  have 8: "(WARNING, ''si.tickers_etfs() is unavailable or deprecated, skipping ETFs.'', [])
        \<in> set (fst (snd (fetch_all_tickers ex_sp500_down)))"
    by (simp add: isinstance_def)
  from 0 1 2 3 4 5 6 7 8 show ?thesis by (intro conjI)
qed

theorem source_failure_skips_block_counterexample:
  "tickers_dow ex_sp500_down = Inr [''IBM''] \<and> tickers_nasdaq ex_sp500_down = Inr [''MSFT'']
   \<and> fetch_all_tickers ex_sp500_down =
       ([], [(INFO, ''Fetching list of all tickers from yahoo_fin...'', []),
             (ERROR, ''Failed to fetch tickers for S&P 500, Dow, or NASDAQ: %s'', [AExn (Exn ''ConnectionError'' ''unreachable'')]),
             (WARNING, ''si.tickers_etfs() is unavailable or deprecated, skipping ETFs.'', []),
             (INFO, ''Found %d unique, valid tickers for DB.'', [ANat 0])], None)
   \<and> fst (fetch_all_tickers (ex_sp500_down\<lparr>tickers_etfs := Inr [''SPY'']\<rparr>)) = [''SPY'']
   \<and> tickers_etfs ex_index_interrupted = Inr [''SPY'']
   \<and> fetch_all_tickers ex_index_interrupted =
       ([], [(INFO, ''Fetching list of all tickers from yahoo_fin...'', [])],
        Some (Instance [''KeyboardInterrupt'', ''BaseException''] ''interrupted''))"
  by (simp add: ex_sp500_down_def ex_index_interrupted_def ticker_defs)

section \<open>Properties of the trigger and the worker\<close>

lemma count_update:
  "i < length xs \<Longrightarrow>
   length (filter P (xs[i := v])) + (if P (xs ! i) then 1 else 0) = length (filter P xs) + (if P v then 1 else 0)"
proof (induction xs arbitrary: i)
  case Nil
  then show ?case by simp
next
  case (Cons x xs)
  show ?case
  proof (cases i)
    case 0
    then show ?thesis by simp
  next
    case (Suc k)
    with Cons.prems have "k < length xs" by simp
    from Cons.IH [OF this] Suc show ?thesis by simp
  qed
qed

lemma count_pos: "i < length xs \<Longrightarrow> P (xs ! i) \<Longrightarrow> 0 < length (filter P xs)"
  by (auto simp: filter_empty_conv)

lemma count_two:
  "i < length xs \<Longrightarrow> j < length xs \<Longrightarrow> i \<noteq> j \<Longrightarrow> P (xs ! i) \<Longrightarrow> P (xs ! j) \<Longrightarrow> 2 \<le> length (filter P xs)"
proof (induction xs arbitrary: i j)
  case Nil
  then show ?case by simp
next
  case (Cons x xs)
  show ?case
  proof (cases i)
    case i0: 0
    then obtain k where j: "j = Suc k" using Cons.prems(3) by (cases j) auto
    with Cons.prems have "k < length xs" "P (xs ! k)" by auto
    then have "0 < length (filter P xs)" by (rule count_pos)
    moreover have "P x" using Cons.prems(4) i0 by simp
    ultimately show ?thesis by (cases "filter P xs") simp_all
  next
    case iS: (Suc k)
    show ?thesis
    proof (cases j)
      case 0
      from Cons.prems iS have "k < length xs" "P (xs ! k)" by auto
      then have "0 < length (filter P xs)" by (rule count_pos)
      moreover have "P x" using Cons.prems(5) 0 by simp
      ultimately show ?thesis by (cases "filter P xs") simp_all
    next
      case (Suc l)
      with Cons.prems iS have "k < length xs" "l < length xs" "k \<noteq> l" "P (xs ! k)" "P (xs ! l)" by auto
      from Cons.IH [OF this] show ?thesis by simp
    qed
  qed
qed

lemma count_le_one:
  "(\<And>i j. i < length xs \<Longrightarrow> j < length xs \<Longrightarrow> P (xs ! i) \<Longrightarrow> P (xs ! j) \<Longrightarrow> i = j) \<Longrightarrow> length (filter P xs) \<le> 1"
proof (induction xs)
  case Nil
  then show ?case by simp
next
  case (Cons x xs)
  have tail: "length (filter P xs) \<le> 1"
  proof (rule Cons.IH)
    fix i j assume "i < length xs" "j < length xs" "P (xs ! i)" "P (xs ! j)"
    then have "Suc i = Suc j" using Cons.prems [of "Suc i" "Suc j"] by simp
    then show "i = j" by simp
  qed
  show ?case
  proof (cases "P x")
    case False
    with tail show ?thesis by simp
  next
    case True
    have "filter P xs = []"
    proof (rule ccontr)
      assume "filter P xs \<noteq> []"
      then obtain y where "y \<in> set xs" "P y" by (auto simp: filter_empty_conv)
      then obtain k where "k < length xs" "xs ! k = y" by (auto simp: in_set_conv_nth)
      with \<open>P y\<close> True have "0 = Suc k" using Cons.prems [of 0 "Suc k"] by simp
      then show False by simp
    qed
    with True show ?thesis by simp
  qed
qed

lemma inv_init: "inv init"
  by (simp add: inv_def init_def count_pcs_def)

lemma in_set_updateD: "x \<in> set (xs[i := v]) \<Longrightarrow> x = v \<or> x \<in> set xs"
  using set_update_subset_insert [of xs i v] by auto

lemma other_holder:
  assumes "i < length xs" "holds_lock (xs ! i)" "length (filter holds_lock xs) \<le> 1"
    and "x \<in> set (xs[i := v])" "holds_lock x"
  shows "x = v"
proof (rule ccontr)
  assume "x \<noteq> v"
  from assms(4) obtain j where j: "j < length xs" "xs[i := v] ! j = x"
    by (auto simp: in_set_conv_nth)
  with \<open>x \<noteq> v\<close> assms(1) have "j \<noteq> i" by auto
  with j have "xs ! j = x" by simp
  with assms(5) have "holds_lock (xs ! j)" by simp
  from count_two [OF assms(1) j(1) \<open>j \<noteq> i\<close>[symmetric] assms(2) this] assms(3) show False by simp
qed

lemma other_SetFlag:
  assumes "i < length xs" "holds_lock (xs ! i)" "length (filter holds_lock xs) \<le> 1" "v \<noteq> SetFlag"
  shows "SetFlag \<notin> set (xs[i := v])"
  using other_holder [OF assms(1-3), of SetFlag v] assms(4) by auto

lemma other_Unlock:
  assumes "i < length xs" "holds_lock (xs ! i)" "length (filter holds_lock xs) \<le> 1" "v \<noteq> Unlock q"
  shows "Unlock q \<notin> set (xs[i := v])"
  using other_holder [OF assms(1-3), of "Unlock q" v] assms(4) by auto

lemma inv_thread_step:
  assumes "inv s" "i < length (threads s)" "thread_step tok s i (threads s ! i) = Some s'"
  shows "inv s'"
proof -
  note cu = count_update [OF assms(2), of holds_lock] count_update [OF assms(2), of in_run]
  note cp = count_pos [OF assms(2), of holds_lock] count_pos [OF assms(2), of in_run]
  have le1: "length (filter holds_lock (threads s)) \<le> 1"
    using assms(1) by (simp add: inv_def count_pcs_def)
  note oS = other_SetFlag [OF assms(2) _ le1] other_Unlock [OF assms(2) _ le1]
  show ?thesis
  proof (cases "threads s ! i")
    case (Request h)
    then show ?thesis
      using assms cu [of "case require_token tok h of Some r \<Rightarrow> Responded r | None \<Rightarrow> Acquire"]
      by (auto simp: inv_def count_pcs_def set_pc_def split: option.splits dest!: in_set_updateD)
  next
    case Acquire
    then show ?thesis
      using assms cu [of Check]
      by (auto simp: inv_def count_pcs_def set_pc_def split: if_splits dest!: in_set_updateD)
  next
    case Check
    then show ?thesis
      using assms cu [of Reject] cu [of SetFlag]
      by (auto simp: inv_def count_pcs_def set_pc_def split: if_splits dest!: in_set_updateD)
  next
    case Reject
    then show ?thesis
      using assms cp cu [of "Responded already_running"]
      by (auto simp: inv_def count_pcs_def set_pc_def split: if_splits dest!: in_set_updateD)
  next
    case SetFlag
    then show ?thesis
      using assms cp cu [of Release] oS [of Release] nth_mem [OF assms(2)]
      by (auto simp: inv_def count_pcs_def set_pc_def split: if_splits)
  next
    case Release
    then show ?thesis
      using assms cp cu [of Spawn]
      by (auto simp: inv_def count_pcs_def set_pc_def split: if_splits dest!: in_set_updateD)
  next
    case Spawn
    then show ?thesis
      using assms cp cu [of Accept]
      by (auto simp: inv_def count_pcs_def set_pc_def split: if_splits dest!: in_set_updateD)
  next
    case Accept
    then show ?thesis
      using assms cp cu [of "Responded accepted"]
      by (auto simp: inv_def count_pcs_def set_pc_def split: if_splits dest!: in_set_updateD)
  next
    case (Responded r)
    then show ?thesis using assms by simp
  next
    case Run
    then show ?thesis using assms by simp
  next
    case (Finally q)
    then show ?thesis
      using assms cp cu [of "Reset q"]
      by (auto simp: inv_def count_pcs_def set_pc_def split: if_splits dest!: in_set_updateD)
  next
    case (Reset q)
    then show ?thesis
      using assms cp cu [of "Unlock q"]
      by (auto simp: inv_def count_pcs_def set_pc_def split: if_splits dest!: in_set_updateD)
  next
    case (Unlock q)
    then show ?thesis
      using assms cp cu [of "Exited q"]
      by (auto simp: inv_def count_pcs_def set_pc_def split: if_splits dest!: in_set_updateD)
  next
    case (Exited q)
    then show ?thesis using assms by simp
  qed
qed

lemma inv_step:
  assumes "inv s" "step tok s ev = Some s'"
  shows "inv s'"
proof (cases ev)
  case (Arrive h)
  then show ?thesis using assms by (auto simp: step_def inv_def count_pcs_def)
next
  case (Step i)
  then show ?thesis using assms inv_thread_step [of s i tok s'] by (auto simp: step_def split: if_splits)
next
  case (RunEnds i out)
  then have i: "i < length (threads s)" and r: "threads s ! i = Run"
    and s': "s' = set_pc s i (Finally (case out of Escapes e \<Rightarrow> Some e | _ \<Rightarrow> None))"
    using assms(2) by (auto simp: step_def split: if_splits)
  show ?thesis
    using assms(1) r
      count_update [OF i, of holds_lock "Finally (case out of Escapes e \<Rightarrow> Some e | _ \<Rightarrow> None)"]
      count_update [OF i, of in_run "Finally (case out of Escapes e \<Rightarrow> Some e | _ \<Rightarrow> None)"]
    unfolding s' by (auto simp: inv_def count_pcs_def set_pc_def dest!: in_set_updateD)
qed

lemma inv_exec: "inv s \<Longrightarrow> exec tok s evs = Some s' \<Longrightarrow> inv s'"
proof (induction evs arbitrary: s)
  case Nil
  then show ?case by simp
next
  case (Cons ev evs)
  then show ?case by (auto split: option.splits dest: inv_step)
qed

lemma thread_step_other:
  assumes "thread_step tok s j p = Some s'" "i \<noteq> j" "i < length (threads s)"
  shows "i < length (threads s') \<and> threads s' ! i = threads s ! i"
  using assms by (cases p) (auto simp: set_pc_def nth_append split: if_splits)

lemma thread_step_flag:
  assumes "thread_step tok s j p = Some s'" "task_running s" "\<not> task_running s'"
  shows "at_reset p"
  using assms by (cases p) (auto simp: set_pc_def split: if_splits)

lemma rejecting_step:
  assumes "inv s" "rejecting s i" "step tok s ev = Some s'"
  shows "rejecting s' i"
proof (cases ev)
  case (Arrive h)
  with assms show ?thesis by (auto simp: step_def rejecting_def nth_append)
next
  case (RunEnds j out)
  with assms(3) have j: "j < length (threads s)" "threads s ! j = Run"
    and s': "s' = set_pc s j (Finally (case out of Escapes e \<Rightarrow> Some e | _ \<Rightarrow> None))"
    by (auto simp: step_def split: if_splits)
  from assms(2) j have "i \<noteq> j" by (auto simp: rejecting_def)
  with assms(2) show ?thesis unfolding s' by (auto simp: rejecting_def set_pc_def)
next
  case (Step j)
  with assms(3) have j: "j < length (threads s)" and ts: "thread_step tok s j (threads s ! j) = Some s'"
    by (auto simp: step_def split: if_splits)
  show ?thesis
  proof (cases "i = j")
    case True
    with assms(2) ts show ?thesis by (auto simp: rejecting_def set_pc_def)
  next
    case False
    from assms(2) have i: "i < length (threads s)" by (simp add: rejecting_def)
    from thread_step_other [OF ts False i] have same: "i < length (threads s')" "threads s' ! i = threads s ! i"
      by simp_all
    have "task_running s'" if c: "threads s ! i = Check" and r: "task_running s"
    proof (rule ccontr)
      assume "\<not> task_running s'"
      from thread_step_flag [OF ts r this] have "holds_lock (threads s ! j)"
        by (cases "threads s ! j") simp_all
      moreover have "holds_lock (threads s ! i)" using c by simp
      ultimately have "2 \<le> length (filter holds_lock (threads s))"
        using count_two [OF i j False] by blast
      with assms(1) show False by (simp add: inv_def count_pcs_def split: if_splits)
    qed
    with assms(2) same show ?thesis by (auto simp: rejecting_def)
  qed
qed

lemma rejecting_exec:
  "inv s \<Longrightarrow> rejecting s i \<Longrightarrow> exec tok s evs = Some s' \<Longrightarrow> rejecting s' i"
proof (induction evs arbitrary: s)
  case Nil
  then show ?case by simp
next
  case (Cons ev evs)
  from Cons.prems(3) obtain s1 where s1: "step tok s ev = Some s1" "exec tok s1 evs = Some s'"
    by (auto split: option.splits)
  from inv_step [OF Cons.prems(1) s1(1)] rejecting_step [OF Cons.prems(1,2) s1(1)] s1(2)
  show ?case by (rule Cons.IH)
qed

lemma inv_worker_alive:
  assumes "inv s"
  shows "count_pcs worker_alive s \<le> 1"
  unfolding count_pcs_def
proof (rule count_le_one)
  fix i j
  assume i: "i < length (threads s)" and j: "j < length (threads s)"
    and wi: "worker_alive (threads s ! i)" and wj: "worker_alive (threads s ! j)"
  from assms have lock1: "length (filter holds_lock (threads s)) \<le> 1"
    and run1: "length (filter in_run (threads s)) \<le> 1"
    and run: "length (filter in_run (threads s)) = (if task_running s then 1 else 0)"
    and unl: "\<And>q. Unlock q \<in> set (threads s) \<Longrightarrow> \<not> task_running s"
    by (auto simp: inv_def count_pcs_def split: if_splits)
  show "i = j"
  proof (rule ccontr)
    assume ne: "i \<noteq> j"
    have both_in_run: False if "in_run (threads s ! i)" "in_run (threads s ! j)"
      using count_two [OF i j ne, of in_run] that run1 by simp
    have both_hold: False if "holds_lock (threads s ! i)" "holds_lock (threads s ! j)"
      using count_two [OF i j ne, of holds_lock] that lock1 by simp
    have mixed: False if u: "threads s ! a = Unlock q" and a: "a < length (threads s)"
      and b: "b < length (threads s)" and r: "in_run (threads s ! b)" for a b q
    proof -
      from u a have "Unlock q \<in> set (threads s)" by (metis nth_mem)
      then have "\<not> task_running s" by (rule unl)
      with run have "length (filter in_run (threads s)) = 0" by simp
      with count_pos [OF b, of in_run] r show False by simp
    qed
    from wi wj show False
      by (cases "threads s ! i"; cases "threads s ! j")
        (use both_in_run both_hold mixed [OF _ i j] mixed [OF _ j i] in \<open>simp_all\<close>)
  qed
qed

text \<open>
  Claim C1 (single flight). In every state the process can reach, by any interleaving of
  arriving requests, thread actions and ending runs: at most one worker thread has not
  ended; the flag is set exactly when one run is in progress and the lock is held exactly
  when one thread is inside a \<open>with\<close> block, so that the read of the flag and its
  setting by one request are not interleaved with those of another, and a request about to
  set the flag finds it still unset. A request that reads the flag while it is set answers
  429 in its next two actions, leaving the flag and the list of threads as they are but
  for its own response, and in no continuation does it reach the program point that starts
  a thread.
\<close>

theorem single_flight:
  assumes "exec tok init evs = Some s"
  shows "count_pcs worker_alive s \<le> 1
       \<and> count_pcs in_run s = (if task_running s then 1 else 0)
       \<and> count_pcs holds_lock s = (if task_lock s then 1 else 0)
       \<and> (SetFlag \<in> set (threads s) \<longrightarrow> \<not> task_running s)
       \<and> (\<forall>i. i < length (threads s) \<and> threads s ! i = Check \<and> task_running s \<longrightarrow>
             exec tok s [Step i, Step i] =
               Some (s\<lparr>task_lock := False, threads := (threads s)[i := Responded already_running]\<rparr>)
             \<and> status already_running = 429
             \<and> (\<forall>evs' s'. exec tok s evs' = Some s' \<longrightarrow>
                   threads s' ! i = Check \<or> threads s' ! i = Reject \<or> threads s' ! i = Responded already_running))"
proof -
  from inv_exec [OF inv_init assms] have I: "inv s" .
  have a: "count_pcs worker_alive s \<le> 1" using I by (rule inv_worker_alive)
  have b: "count_pcs in_run s = (if task_running s then 1 else 0)"
    "count_pcs holds_lock s = (if task_lock s then 1 else 0)"
    "SetFlag \<in> set (threads s) \<longrightarrow> \<not> task_running s"
    using I by (simp_all add: inv_def)
  have c: "exec tok s [Step i, Step i] =
               Some (s\<lparr>task_lock := False, threads := (threads s)[i := Responded already_running]\<rparr>)
             \<and> status already_running = 429
             \<and> (\<forall>evs' s'. exec tok s evs' = Some s' \<longrightarrow>
                   threads s' ! i = Check \<or> threads s' ! i = Reject \<or> threads s' ! i = Responded already_running)"
    if i: "i < length (threads s)" and ck: "threads s ! i = Check" and r: "task_running s" for i
  proof -
    have 1: "exec tok s [Step i, Step i] =
               Some (s\<lparr>task_lock := False, threads := (threads s)[i := Responded already_running]\<rparr>)"
      using i ck r by (simp add: step_def set_pc_def)
    have 2: "status already_running = 429" by (simp add: already_running_def)
    have rj: "rejecting s i" using i ck r by (simp add: rejecting_def)
    have 3: "threads s' ! i = Check \<or> threads s' ! i = Reject \<or> threads s' ! i = Responded already_running"
      if "exec tok s evs' = Some s'" for evs' s'
      using rejecting_exec [OF I rj that] by (auto simp: rejecting_def)
    from 1 2 3 show ?thesis by blast
  qed
  from a b c show ?thesis by blast
qed

lemma lower_Bearer: "py_lower ''Bearer'' = ''bearer''" "py_lower ''Basic'' = ''basic''"
  by code_simp+

lemma ex_schedule_runs: "exec ex_token init ex_schedule = Some ex_running"
  by (simp add: ex_schedule_def ex_token_def ex_running_def step_def set_pc_def init_def
      require_token_def py_split_def py_isspace_def lower_Bearer)

theorem single_flight_witness:
  "exec ex_token init ex_schedule = Some ex_running
   \<and> threads ex_running ! 2 = Check \<and> task_running ex_running
   \<and> count_pcs worker_alive ex_running \<le> 1
   \<and> exec ex_token ex_running [Step 2, Step 2] =
        Some \<lparr>task_running = True, task_lock = False,
              threads = [Responded accepted, Run, Responded already_running]\<rparr>
   \<and> status already_running = 429"
proof -
  note t = single_flight [OF ex_schedule_runs]
  have p: "2 < length (threads ex_running)" "threads ex_running ! 2 = Check" "task_running ex_running"
    by (simp_all add: ex_running_def)
  from t have 1: "count_pcs worker_alive ex_running \<le> 1" by blast
  from t p have "exec ex_token ex_running [Step 2, Step 2] =
      Some (ex_running\<lparr>task_lock := False, threads := (threads ex_running)[2 := Responded already_running]\<rparr>)
      \<and> status already_running = 429"
    by blast
  then have 2: "exec ex_token ex_running [Step 2, Step 2] =
        Some \<lparr>task_running = True, task_lock = False,
              threads = [Responded accepted, Run, Responded already_running]\<rparr>"
    and 3: "status already_running = 429"
    by (simp_all add: ex_running_def)
  from ex_schedule_runs p 1 2 3 show ?thesis by blast
qed

text \<open>
  A worker thread passes the assignment that resets the flag once: the count of its resets
  along a schedule is the difference of having passed it at the end and at the start.
\<close>

lemma step_worker:
  assumes "i < length (threads s)" "is_worker (threads s ! i)" "step tok s ev = Some s1"
  shows "i < length (threads s1) \<and> is_worker (threads s1 ! i) \<and>
         (if ev = Step i \<and> at_reset (threads s ! i) then 1 else 0) + (if past_reset (threads s ! i) then (1::nat) else 0)
           = (if past_reset (threads s1 ! i) then 1 else 0)"
proof (cases ev)
  case (Arrive h)
  with assms show ?thesis by (auto simp: step_def nth_append)
next
  case (RunEnds j out)
  with assms show ?thesis
    by (cases "i = j") (auto simp: step_def set_pc_def split: if_splits)
next
  case (Step j)
  with assms(3) have j: "j < length (threads s)" and ts: "thread_step tok s j (threads s ! j) = Some s1"
    by (auto simp: step_def split: if_splits)
  show ?thesis
  proof (cases "i = j")
    case True
    with assms(1,2) ts Step show ?thesis
      by (cases "threads s ! j") (auto simp: set_pc_def split: if_splits)
  next
    case False
    from thread_step_other [OF ts False assms(1)] assms(2) Step False show ?thesis by simp
  qed
qed

lemma resets_count:
  assumes "i < length (threads s)" "is_worker (threads s ! i)" "exec tok s evs = Some s'"
  shows "i < length (threads s') \<and> is_worker (threads s' ! i) \<and>
         resets tok s i evs + (if past_reset (threads s ! i) then 1 else 0)
           = (if past_reset (threads s' ! i) then 1 else 0)"
  using assms
proof (induction evs arbitrary: s)
  case Nil
  then show ?case by simp
next
  case (Cons ev evs)
  from Cons.prems(3) obtain s1 where s1: "step tok s ev = Some s1" "exec tok s1 evs = Some s'"
    by (auto split: option.splits)
  note st = step_worker [OF Cons.prems(1,2) s1(1)]
  from st have "i < length (threads s1)" "is_worker (threads s1 ! i)" by simp_all
  note ih = Cons.IH [OF this s1(2)]
  have "resets tok s i (ev # evs) =
      (if ev = Step i \<and> at_reset (threads s ! i) then 1 else 0) + resets tok s1 i evs"
    using s1(1) by simp
  with st ih show ?case by (simp split: if_splits)
qed

lemma worker_run_to_end:
  assumes "i < length (threads s)" "threads s ! i = Run" "\<not> task_lock s"
  shows "exec tok s [RunEnds i out, Step i, Step i, Step i] =
     Some (s\<lparr>task_running := False,
             threads := (threads s)[i := Exited (case out of Escapes e \<Rightarrow> Some e | _ \<Rightarrow> None)]\<rparr>)"
  using assms by (simp add: step_def set_pc_def)

lemma lock_holder_moves:
  assumes "inv s" "task_lock s"
  shows "\<exists>j s'. j < length (threads s) \<and> holds_lock (threads s ! j) \<and> step tok s (Step j) = Some s'"
proof -
  from assms have "length (filter holds_lock (threads s)) = 1" by (simp add: inv_def count_pcs_def)
  then have "filter holds_lock (threads s) \<noteq> []" by auto
  then obtain p where "p \<in> set (threads s)" "holds_lock p" by (auto simp: filter_empty_conv)
  then obtain j where j: "j < length (threads s)" "threads s ! j = p" by (auto simp: in_set_conv_nth)
  with \<open>holds_lock p\<close> have "\<exists>s'. thread_step tok s j (threads s ! j) = Some s'"
    by (cases p) simp_all
  with j \<open>holds_lock p\<close> show ?thesis by (auto simp: step_def)
qed

text \<open>
  Claim C2 (the worker releases the flag). \<open>s\<close> is a reachable state in which thread
  \<open>i\<close> is a worker inside \<open>run_data_collection\<close>. Along every continuation the worker
  executes the reset at most once, and exactly once when it has ended; the reset leaves
  the flag unset; whenever the lock is held, the thread holding it can take its next
  action, so the worker does not wait for a lock that is never released. If the lock is
  free, then for each way the run can end (it returns, it raises an Exception, it raises
  an exception outside that class) the worker's four actions run through, the flag is
  unset at the end and the reset happened exactly once.
\<close>

theorem worker_resets_flag_once:
  assumes "exec tok init evs0 = Some s" "i < length (threads s)" "threads s ! i = Run"
  shows "(\<forall>evs s'. exec tok s evs = Some s' \<longrightarrow>
            resets tok s i evs \<le> 1
            \<and> (has_exited (threads s' ! i) \<longrightarrow> resets tok s i evs = 1)
            \<and> (task_lock s' \<longrightarrow> (\<exists>j s''. j < length (threads s') \<and> holds_lock (threads s' ! j) \<and> step tok s' (Step j) = Some s'')))
       \<and> (\<forall>s1 pending. i < length (threads s1) \<and> threads s1 ! i = Reset pending \<longrightarrow>
            (\<exists>s2. step tok s1 (Step i) = Some s2 \<and> \<not> task_running s2))
       \<and> (\<forall>out. \<not> task_lock s \<longrightarrow>
            (\<exists>s'. exec tok s [RunEnds i out, Step i, Step i, Step i] = Some s'
                  \<and> \<not> task_running s' \<and> has_exited (threads s' ! i)
                  \<and> resets tok s i [RunEnds i out, Step i, Step i, Step i] = 1))"
proof -
  from inv_exec [OF inv_init assms(1)] have I: "inv s" .
  have w: "is_worker (threads s ! i)" "\<not> past_reset (threads s ! i)" using assms(3) by simp_all
  have a: "resets tok s i evs \<le> 1
            \<and> (has_exited (threads s' ! i) \<longrightarrow> resets tok s i evs = 1)
            \<and> (task_lock s' \<longrightarrow> (\<exists>j s''. j < length (threads s') \<and> holds_lock (threads s' ! j) \<and> step tok s' (Step j) = Some s''))"
    if e: "exec tok s evs = Some s'" for evs s'
  proof -
    from resets_count [OF assms(2) w(1) e] w(2)
    have c: "resets tok s i evs = (if past_reset (threads s' ! i) then 1 else 0)" by simp
    then have 1: "resets tok s i evs \<le> 1" by simp
    have 2: "has_exited (threads s' ! i) \<longrightarrow> resets tok s i evs = 1"
      using c by (cases "threads s' ! i") simp_all
    from inv_exec [OF I e] have "inv s'" .
    then have 3: "task_lock s' \<longrightarrow> (\<exists>j s''. j < length (threads s') \<and> holds_lock (threads s' ! j) \<and> step tok s' (Step j) = Some s'')"
      using lock_holder_moves by blast
    from 1 2 3 show ?thesis by blast
  qed
  have b: "\<exists>s2. step tok s1 (Step i) = Some s2 \<and> \<not> task_running s2"
    if "i < length (threads s1) \<and> threads s1 ! i = Reset pending" for s1 pending
    using that by (simp add: step_def set_pc_def)
  have c: "\<exists>s'. exec tok s [RunEnds i out, Step i, Step i, Step i] = Some s'
                  \<and> \<not> task_running s' \<and> has_exited (threads s' ! i)
                  \<and> resets tok s i [RunEnds i out, Step i, Step i, Step i] = 1"
    if l: "\<not> task_lock s" for out
  proof -
    let ?s' = "s\<lparr>task_running := False,
             threads := (threads s)[i := Exited (case out of Escapes e \<Rightarrow> Some e | _ \<Rightarrow> None)]\<rparr>"
    note e = worker_run_to_end [OF assms(2,3) l, of tok out]
    have x: "has_exited (threads ?s' ! i)" using assms(2) by simp
    from a [OF e] x have "resets tok s i [RunEnds i out, Step i, Step i, Step i] = 1" by blast
    with e x show ?thesis by auto
  qed
  from a b c show ?thesis by blast
qed

lemma ex_accept_schedule_runs: "exec ex_token init ex_accept_schedule = Some ex_started"
  by (simp add: ex_accept_schedule_def ex_token_def ex_started_def step_def set_pc_def init_def
      require_token_def py_split_def py_isspace_def lower_Bearer)

theorem worker_resets_flag_once_witness:
  "exec ex_token init ex_accept_schedule = Some ex_started
   \<and> threads ex_started ! 1 = Run
   \<and> exec ex_token ex_started [RunEnds 1 (Raises (Exn ''RuntimeError'' ''boom'')), Step 1, Step 1, Step 1]
        = Some \<lparr>task_running = False, task_lock = False, threads = [Responded accepted, Exited None]\<rparr>
   \<and> resets ex_token ex_started 1 [RunEnds 1 (Raises (Exn ''RuntimeError'' ''boom'')), Step 1, Step 1, Step 1] = 1
   \<and> resets ex_token ex_started 1 [RunEnds 1 Returns, Step 1, Step 1, Step 1, Arrive None, Step 2] = 1
   \<and> (\<exists>s'. exec ex_token ex_started [RunEnds 1 (Escapes (Instance [''SystemExit'', ''BaseException''] ''0'')), Step 1, Step 1, Step 1] = Some s'
          \<and> \<not> task_running s' \<and> has_exited (threads s' ! 1))
   \<and> (\<exists>s2. step ex_token \<lparr>task_running = True, task_lock = True, threads = [Responded accepted, Reset None]\<rparr> (Step 1) = Some s2
          \<and> \<not> task_running s2)"
proof -
  have p: "1 < length (threads ex_started)" "threads ex_started ! 1 = Run" "\<not> task_lock ex_started"
    by (simp_all add: ex_started_def)
  note t = worker_resets_flag_once [OF ex_accept_schedule_runs p(1,2)]
  have e1: "exec ex_token ex_started [RunEnds 1 (Raises (Exn ''RuntimeError'' ''boom'')), Step 1, Step 1, Step 1]
        = Some \<lparr>task_running = False, task_lock = False, threads = [Responded accepted, Exited None]\<rparr>"
    by (simp add: ex_started_def step_def set_pc_def)
  from t p(3) have r1: "resets ex_token ex_started 1 [RunEnds 1 (Raises (Exn ''RuntimeError'' ''boom'')), Step 1, Step 1, Step 1] = 1"
    by blast
  have e2: "exec ex_token ex_started [RunEnds 1 Returns, Step 1, Step 1, Step 1, Arrive None, Step 2]
        = Some \<lparr>task_running = False, task_lock = False,
                threads = [Responded accepted, Exited None,
                           Responded (Response [(''error'', ''Missing authorization token'')] 401)]\<rparr>"
    by (simp add: ex_started_def step_def set_pc_def require_token_def)
  from t e2 have "has_exited (threads \<lparr>task_running = False, task_lock = False,
                threads = [Responded accepted, Exited None,
                           Responded (Response [(''error'', ''Missing authorization token'')] 401)]\<rparr> ! 1) \<longrightarrow>
      resets ex_token ex_started 1 [RunEnds 1 Returns, Step 1, Step 1, Step 1, Arrive None, Step 2] = 1"
    by blast
  then have r2: "resets ex_token ex_started 1 [RunEnds 1 Returns, Step 1, Step 1, Step 1, Arrive None, Step 2] = 1"
    by simp
  from t p(3) have x: "\<exists>s'. exec ex_token ex_started [RunEnds 1 (Escapes (Instance [''SystemExit'', ''BaseException''] ''0'')), Step 1, Step 1, Step 1] = Some s'
          \<and> \<not> task_running s' \<and> has_exited (threads s' ! 1)"
    by blast
  have q: "1 < length (threads \<lparr>task_running = True, task_lock = True, threads = [Responded accepted, Reset None]\<rparr>)
      \<and> threads \<lparr>task_running = True, task_lock = True, threads = [Responded accepted, Reset None]\<rparr> ! 1 = Reset None"
    by simp
  from t q have y: "\<exists>s2. step ex_token \<lparr>task_running = True, task_lock = True, threads = [Responded accepted, Reset None]\<rparr> (Step 1) = Some s2
          \<and> \<not> task_running s2"
    by blast
  from ex_accept_schedule_runs p(2) e1 r1 r2 x y show ?thesis by blast
qed

text \<open>
  The decorator lets a request through exactly when the header splits into a scheme that
  lower-cases to bearer and the configured token; a response that has been sent stays.
\<close>

lemma require_token_rejects:
  assumes "h = None \<or> (\<exists>v. h = Some v \<and>
             (length (py_split v) \<noteq> 2 \<or> py_lower (py_split v ! 0) \<noteq> ''bearer'' \<or> py_split v ! 1 \<noteq> tok))"
  shows "\<exists>r. require_token tok h = Some r \<and> status r = 401"
proof (cases h)
  case None
  then show ?thesis by (simp add: require_token_def)
next
  case (Some v)
  with assms have bad: "length (py_split v) \<noteq> 2 \<or> py_lower (py_split v ! 0) \<noteq> ''bearer'' \<or> py_split v ! 1 \<noteq> tok"
    by simp
  show ?thesis
  proof (cases "py_split v")
    case Nil
    with Some show ?thesis by (simp add: require_token_def)
  next
    case (Cons a as)
    note c1 = this
    show ?thesis
    proof (cases as)
      case Nil
      with c1 Some show ?thesis by (simp add: require_token_def)
    next
      case (Cons b bs)
      show ?thesis
      proof (cases bs)
        case Nil
        with c1 Cons bad have "py_lower a \<noteq> ''bearer'' \<or> b \<noteq> tok" by simp
        with c1 Cons Nil Some show ?thesis by (auto simp: require_token_def)
      next
        case (Cons c cs)
        with c1 \<open>as = b # bs\<close> Some show ?thesis by (simp add: require_token_def)
      qed
    qed
  qed
qed

lemma require_token_passes:
  "require_token tok h = None \<longleftrightarrow>
     (\<exists>v a. h = Some v \<and> py_split v = [a, tok] \<and> py_lower a = ''bearer'')"
proof (cases h)
  case None
  then show ?thesis by (simp add: require_token_def)
next
  case (Some v)
  show ?thesis
  proof (cases "v = []")
    case True
    with Some show ?thesis by (simp add: require_token_def py_split_def)
  next
    case False
    with Some show ?thesis by (auto simp: require_token_def split: list.splits)
  qed
qed

lemma responded_stays:
  assumes "i < length (threads s)" "threads s ! i = Responded r" "exec tok s evs = Some s'"
  shows "i < length (threads s') \<and> threads s' ! i = Responded r"
  using assms
proof (induction evs arbitrary: s)
  case Nil
  then show ?case by simp
next
  case (Cons ev evs)
  from Cons.prems(3) obtain s1 where s1: "step tok s ev = Some s1" "exec tok s1 evs = Some s'"
    by (auto split: option.splits)
  have "i < length (threads s1) \<and> threads s1 ! i = Responded r"
  proof (cases ev)
    case (Arrive h)
    with s1(1) Cons.prems(1,2) show ?thesis by (auto simp: step_def nth_append)
  next
    case (RunEnds j out)
    with s1(1) Cons.prems(1,2) show ?thesis
      by (cases "i = j") (auto simp: step_def set_pc_def split: if_splits)
  next
    case (Step j)
    with s1(1) have ts: "thread_step tok s j (threads s ! j) = Some s1"
      by (auto simp: step_def split: if_splits)
    have "i \<noteq> j" using ts Cons.prems(2) by auto
    from thread_step_other [OF ts this Cons.prems(1)] Cons.prems(2) show ?thesis by simp
  qed
  then show ?case using Cons.IH s1(2) by blast
qed

text \<open>
  Claim C9 (authentication frame). A request whose Authorization header is missing, does
  not split into exactly two parts, or carries another scheme or another token is answered
  with status 401 in one action that changes nothing but the request's own program point:
  the flag keeps its value, whatever it was, the lock is untouched and no thread is added.
  In no continuation does the request move again, so it never sets the flag and never
  starts a run.
\<close>

theorem unauthorized_request_changes_nothing:
  assumes "i < length (threads s)" "threads s ! i = Request h"
    and "h = None \<or> (\<exists>v. h = Some v \<and>
           (length (py_split v) \<noteq> 2 \<or> py_lower (py_split v ! 0) \<noteq> ''bearer'' \<or> py_split v ! 1 \<noteq> tok))"
  shows "\<exists>r. require_token tok h = Some r \<and> status r = 401
           \<and> step tok s (Step i) = Some (s\<lparr>threads := (threads s)[i := Responded r]\<rparr>)
           \<and> (\<forall>evs s'. exec tok (s\<lparr>threads := (threads s)[i := Responded r]\<rparr>) evs = Some s' \<longrightarrow>
                 threads s' ! i = Responded r)"
proof -
  from require_token_rejects [OF assms(3)] obtain r where r: "require_token tok h = Some r" "status r = 401"
    by blast
  let ?s = "s\<lparr>threads := (threads s)[i := Responded r]\<rparr>"
  have st: "step tok s (Step i) = Some ?s" using assms(1,2) r(1) by (simp add: step_def set_pc_def)
  have "i < length (threads ?s)" "threads ?s ! i = Responded r" using assms(1) by simp_all
  from responded_stays [OF this]
  have "\<forall>evs s'. exec tok ?s evs = Some s' \<longrightarrow> threads s' ! i = Responded r" by blast
  with r st show ?thesis by blast
qed

theorem unauthorized_request_changes_nothing_witness:
  "step ex_token \<lparr>task_running = True, task_lock = False,
         threads = [Responded accepted, Run, Request (Some ''Bearer wrong'')]\<rparr> (Step 2)
     = Some \<lparr>task_running = True, task_lock = False,
             threads = [Responded accepted, Run, Responded (Response [(''error'', ''Invalid token'')] 401)]\<rparr>
   \<and> step ex_token \<lparr>task_running = False, task_lock = False, threads = [Request None]\<rparr> (Step 0)
     = Some \<lparr>task_running = False, task_lock = False,
             threads = [Responded (Response [(''error'', ''Missing authorization token'')] 401)]\<rparr>"
proof -
  let ?s = "\<lparr>task_running = True, task_lock = False,
         threads = [Responded accepted, Run, Request (Some ''Bearer wrong'')]\<rparr>"
  have sp: "py_split ''Bearer wrong'' = [''Bearer'', ''wrong'']"
    by (simp add: py_split_def py_isspace_def)
  have h: "Some ''Bearer wrong'' = None \<or> (\<exists>v. Some ''Bearer wrong'' = Some v \<and>
           (length (py_split v) \<noteq> 2 \<or> py_lower (py_split v ! 0) \<noteq> ''bearer'' \<or> py_split v ! 1 \<noteq> ex_token))"
    by (simp add: sp ex_token_def)
  have rt: "require_token ex_token (Some ''Bearer wrong'') = Some (Response [(''error'', ''Invalid token'')] 401)"
    by (simp add: require_token_def sp ex_token_def lower_Bearer)
  from unauthorized_request_changes_nothing [of 2 ?s "Some ''Bearer wrong''" ex_token, OF _ _ h]
  obtain r where r: "require_token ex_token (Some ''Bearer wrong'') = Some r"
    "step ex_token ?s (Step 2) = Some (?s\<lparr>threads := (threads ?s)[2 := Responded r]\<rparr>)"
    by auto
  from r(1) rt have "r = Response [(''error'', ''Invalid token'')] 401" by simp
  with r(2) have 1: "step ex_token ?s (Step 2)
     = Some \<lparr>task_running = True, task_lock = False,
             threads = [Responded accepted, Run, Responded (Response [(''error'', ''Invalid token'')] 401)]\<rparr>"
    by simp
  let ?t = "\<lparr>task_running = False, task_lock = False, threads = [Request None]\<rparr>"
  have rt0: "require_token ex_token None = Some (Response [(''error'', ''Missing authorization token'')] 401)"
    by (simp add: require_token_def)
  from unauthorized_request_changes_nothing [of 0 ?t None ex_token]
  obtain r0 where r0: "require_token ex_token None = Some r0"
    "step ex_token ?t (Step 0) = Some (?t\<lparr>threads := (threads ?t)[0 := Responded r0]\<rparr>)"
    by auto
  from r0(1) rt0 have "r0 = Response [(''error'', ''Missing authorization token'')] 401" by simp
  with r0(2) have 2: "step ex_token ?t (Step 0)
     = Some \<lparr>task_running = False, task_lock = False,
             threads = [Responded (Response [(''error'', ''Missing authorization token'')] 401)]\<rparr>"
    by simp
  from 1 2 show ?thesis by blast
qed


end
